theory Spec2Isabelle
  imports Main
begin

section \<open>Blogicum: the request handlers of blog/views.py\<close>

text \<open>
  The handlers of \<^verbatim>\<open>blog/views.py\<close> are embedded as functions of the database
  state, the server clock and the request. A handler that writes returns the new state
  next to its response; a raised exception is the left summand of the result. The two
  handlers of the user's own account, \<^verbatim>\<open>edit_profile\<close> and \<^verbatim>\<open>registration\<close>, touch
  neither posts nor comments and are left out.
\<close>

subsection \<open>Data model\<close>

text \<open>
  Modelled from the spec: \<^verbatim>\<open>blog/models.py\<close> is not among the sources, so the
  entities and their fields are those of the spec's data model (section 3): a User with
  username, names and email; a Category with a slug and an \<^verbatim>\<open>is_published\<close> flag; a
  Post with title, text, \<^verbatim>\<open>pub_date\<close>, image, \<^verbatim>\<open>is_published\<close>, a required
  author and an optional category and location; a Comment with text, creation time, a
  post and an author. Every row has the primary key \<^verbatim>\<open>id\<close> that the handlers look
  rows up by; a foreign key is stored as the key of the row it refers to, and a
  nullable one as an option. Times are integers (any fixed unit since a fixed epoch).
\<close>

type_synonym timestamp = int

record user =
  user_pk :: nat
  username :: string
  first_name :: string
  last_name :: string
  email :: string

record category =
  category_pk :: nat
  category_title :: string
  slug :: string
  category_is_published :: bool

record post =
  post_pk :: nat
  post_title :: string
  post_text :: string
  pub_date :: timestamp
  image :: string
  is_published :: bool
  author_id :: nat
  category_id :: "nat option"
  location_id :: "nat option"

record comment =
  comment_pk :: nat
  comment_text :: string
  created_at :: timestamp
  comment_author_id :: nat
  comment_post_id :: nat

text \<open>
  The database: one list of rows per table, and the next key each table's sequence
  hands out.
\<close>

record store =
  users :: "user list"
  categories :: "category list"
  posts :: "post list"
  comments :: "comment list"
  post_seq :: nat
  comment_seq :: nat

subsection \<open>Requests and responses\<close>

datatype http_method = GET | POST | HEAD | OPTIONS | PUT | PATCH | DELETE | TRACE

text \<open>
  A request carries its method, \<^verbatim>\<open>request.user\<close> (\<open>None\<close> is the anonymous
  user, whose \<^verbatim>\<open>is_authenticated\<close> is false), the \<^verbatim>\<open>page\<close> parameter of the
  query string as Python's \<^verbatim>\<open>int()\<close> reads it (\<open>None\<close> when the parameter is
  absent or is not an integer), and the submitted form data \<^verbatim>\<open>request.POST\<close>
  together with \<^verbatim>\<open>request.FILES\<close>, from field name to submitted value.
\<close>

record request =
  req_method :: http_method
  req_user :: "user option"
  req_page :: "int option"
  req_POST :: "string \<rightharpoonup> string"

text \<open>
  The exceptions a handler can end in: \<^verbatim>\<open>Http404\<close> with its message, the
  \<^verbatim>\<open>MultipleObjectsReturned\<close> of \<^verbatim>\<open>QuerySet.get\<close>, and the \<^verbatim>\<open>OverflowError\<close> of
  the database adapter.
\<close>

datatype error = Http404 string | MultipleObjectsReturned | OverflowError

datatype route = Route_post_detail nat | Route_profile string | Route_login

text \<open>
  A form in a template context: unbound (\<^verbatim>\<open>Form()\<close>), filled from a row
  (\<^verbatim>\<open>Form(instance=row)\<close>), or bound to submitted data that did not validate (the
  submitted values of the form's own fields, which are what it shows again).
\<close>

datatype 'a form = Unbound | Instance 'a | Bound_invalid "string \<rightharpoonup> string"

record 'a page =
  object_list :: "'a list"
  number :: nat
  paginator_num_pages :: nat

text \<open>
  A response is a rendered template with its context, a redirect, or the 405 answer of
  \<^verbatim>\<open>require_http_methods\<close>. A listed post is a pair of the row and its
  \<^verbatim>\<open>comment_count\<close> annotation.
\<close>

datatype response =
    Render_index "(post \<times> nat) page"
  | Render_detail post "comment list" "comment form option"
  | Render_category category "(post \<times> nat) page"
  | Render_profile user "(post \<times> nat) page"
  | Render_create "post form"
  | Render_comment "comment form option" comment
  | Redirect route
  | HttpResponseNotAllowed "http_method list"

subsection \<open>The framework's query and pagination primitives\<close>

text \<open>
  The database keeps an integer as a signed number of 64 bits. No stored key or foreign
  key is larger, and the adapter cannot pass a larger value to a query.
\<close>

definition max_db_int :: nat where
  "max_db_int = 9223372036854775807"

text \<open>The message of the \<^verbatim>\<open>Http404\<close> that \<^verbatim>\<open>get_object_or_404\<close> raises for a model.\<close>

definition no_match_message :: "string \<Rightarrow> string" where
  "no_match_message object_name = ''No '' @ object_name @ '' matches the given query.''"

text \<open>
  \<^verbatim>\<open>get_object_or_404(klass, **conditions)\<close>, for the model named \<open>object_name\<close>
  with the rows \<open>klass\<close>: the one row that meets the conditions, and the
  \<^verbatim>\<open>MultipleObjectsReturned\<close> of \<^verbatim>\<open>QuerySet.get\<close> when several do. When none
  does, the outcome is \<^verbatim>\<open>Http404\<close> with the model's message, unless one of the integer
  values \<open>ints\<close> that the conditions compare with is beyond the database's integers:
  then the query cannot be run and ends in \<^verbatim>\<open>OverflowError\<close>. (Such a value equals
  no stored key, so it never finds a row.)
\<close>

definition get_object_or_404 ::
    "string \<Rightarrow> 'a list \<Rightarrow> ('a \<Rightarrow> bool) \<Rightarrow> nat list \<Rightarrow> error + 'a" where
  "get_object_or_404 object_name klass cond ints =
     (case filter cond klass of
        [] \<Rightarrow>
          if list_ex (\<lambda>i. i > max_db_int) ints then Inl OverflowError
          else Inl (Http404 (no_match_message object_name))
      | [x] \<Rightarrow> Inr x
      | _ \<Rightarrow> Inl MultipleObjectsReturned)"

text \<open>
  \<^verbatim>\<open>post.category\<close> after \<^verbatim>\<open>select_related('category')\<close>: the joined category
  row, \<open>None\<close> when the post has no category (the join is a left outer join).
\<close>

definition post_category :: "store \<Rightarrow> post \<Rightarrow> category option" where
  "post_category s p =
     (case category_id p of
        None \<Rightarrow> None
      | Some k \<Rightarrow> find (\<lambda>c. category_pk c = k) (categories s))"

text \<open>
  The lookup \<^verbatim>\<open>category__is_published=True\<close> joins the category table with an inner
  join, so it holds of no post without a category row.
\<close>

definition category__is_published :: "store \<Rightarrow> post \<Rightarrow> bool" where
  "category__is_published s p =
     (case post_category s p of None \<Rightarrow> False | Some c \<Rightarrow> category_is_published c)"

definition category__isnull :: "post \<Rightarrow> bool" where
  "category__isnull p = (category_id p = None)"

text \<open>\<^verbatim>\<open>annotate(comment_count=Count('comments'))\<close>: the number of comments of the post.\<close>

definition post_comments :: "store \<Rightarrow> post \<Rightarrow> comment list" where
  "post_comments s p = filter (\<lambda>c. comment_post_id c = post_pk p) (comments s)"

definition annotate_comment_count :: "store \<Rightarrow> post \<Rightarrow> post \<times> nat" where
  "annotate_comment_count s p = (p, length (post_comments s p))"

text \<open>
  \<^verbatim>\<open>order_by('-pub_date')\<close>: newest first. The database leaves the order of rows
  with equal \<^verbatim>\<open>pub_date\<close> open; the model keeps them in table order.
\<close>

definition order_by_pub_date_desc :: "(post \<times> nat) list \<Rightarrow> (post \<times> nat) list" where
  "order_by_pub_date_desc rows = sort_key (\<lambda>row. - pub_date (fst row)) rows"

text \<open>
  \<^verbatim>\<open>Paginator(object_list, per_page)\<close> with the defaults \<^verbatim>\<open>orphans=0\<close> and
  \<^verbatim>\<open>allow_empty_first_page=True\<close>: \<^verbatim>\<open>num_pages\<close> is
  \<^verbatim>\<open>ceil(max(1, count) / per_page)\<close>.
\<close>

definition num_pages :: "'a list \<Rightarrow> nat \<Rightarrow> nat" where
  "num_pages xs per_page = (max 1 (length xs) + per_page - 1) div per_page"

datatype page_error = PageNotAnInteger | EmptyPage

definition validate_number :: "'a list \<Rightarrow> nat \<Rightarrow> int option \<Rightarrow> page_error + nat" where
  "validate_number xs per_page n =
     (case n of
        None \<Rightarrow> Inl PageNotAnInteger
      | Some i \<Rightarrow>
          if i < 1 then Inl EmptyPage
          else if nat i > num_pages xs per_page then Inl EmptyPage
          else Inr (nat i))"

text \<open>
  \<^verbatim>\<open>Paginator.page(number)\<close>: the slice \<^verbatim>\<open>object_list[bottom:top]\<close> with
  \<^verbatim>\<open>bottom = (number - 1) * per_page\<close> and \<^verbatim>\<open>top = bottom + per_page\<close>, cut at
  the number of rows.
\<close>

definition paginator_page :: "'a list \<Rightarrow> nat \<Rightarrow> nat \<Rightarrow> 'a page" where
  "paginator_page xs per_page n =
     (let bottom = (n - 1) * per_page;
          top = (if bottom + per_page \<ge> length xs then length xs else bottom + per_page)
      in \<lparr>object_list = take (top - bottom) (drop bottom xs),
          number = n,
          paginator_num_pages = num_pages xs per_page\<rparr>)"

text \<open>
  \<^verbatim>\<open>Paginator.get_page(number)\<close>: the first page when the number is not an integer,
  the last page when it is out of range.
\<close>

definition get_page :: "'a list \<Rightarrow> nat \<Rightarrow> int option \<Rightarrow> 'a page" where
  "get_page xs per_page n =
     (case validate_number xs per_page n of
        Inl PageNotAnInteger \<Rightarrow> paginator_page xs per_page 1
      | Inl EmptyPage \<Rightarrow> paginator_page xs per_page (num_pages xs per_page)
      | Inr k \<Rightarrow> paginator_page xs per_page k)"

subsection \<open>The listings: index, category_posts, profile\<close>

text \<open>The queryset \<^verbatim>\<open>post_list\<close> of \<^verbatim>\<open>index\<close>.\<close>

definition index_post_list :: "store \<Rightarrow> timestamp \<Rightarrow> (post \<times> nat) list" where
  "index_post_list s now =
     order_by_pub_date_desc
       (map (annotate_comment_count s)
          (filter (\<lambda>p. \<not> category__isnull p)
             (filter (\<lambda>p. is_published p \<and> category__is_published s p \<and> pub_date p \<le> now)
                (posts s))))"

definition index :: "store \<Rightarrow> timestamp \<Rightarrow> request \<Rightarrow> response" where
  "index s now request =
     (let post_list = index_post_list s now;
          page_number = req_page request;
          page_obj = get_page post_list 10 page_number
      in Render_index page_obj)"

text \<open>The queryset \<^verbatim>\<open>post_list\<close> of \<^verbatim>\<open>category_posts\<close>, for the category found.\<close>

definition category_post_list :: "store \<Rightarrow> timestamp \<Rightarrow> category \<Rightarrow> (post \<times> nat) list" where
  "category_post_list s now cat =
     order_by_pub_date_desc
       (map (annotate_comment_count s)
          (filter (\<lambda>p. category_id p = Some (category_pk cat) \<and> is_published p \<and> pub_date p \<le> now)
             (posts s)))"

definition category_posts :: "store \<Rightarrow> timestamp \<Rightarrow> request \<Rightarrow> string \<Rightarrow> error + response" where
  "category_posts s now request category_slug =
     (case get_object_or_404 ''Category'' (categories s)
             (\<lambda>c. slug c = category_slug \<and> category_is_published c) [] of
        Inl e \<Rightarrow> Inl e
      | Inr cat \<Rightarrow>
          (let post_list = category_post_list s now cat;
               page_number = req_page request;
               page_obj = get_page post_list 10 page_number
           in Inr (Render_category cat page_obj)))"

text \<open>The queryset \<^verbatim>\<open>post_list\<close> of \<^verbatim>\<open>profile\<close>, for the author found.\<close>

definition profile_post_list :: "store \<Rightarrow> user \<Rightarrow> (post \<times> nat) list" where
  "profile_post_list s author =
     order_by_pub_date_desc
       (map (annotate_comment_count s)
          (filter (\<lambda>p. author_id p = user_pk author) (posts s)))"

definition profile :: "store \<Rightarrow> request \<Rightarrow> string \<Rightarrow> error + response" where
  "profile s request name =
     (case get_object_or_404 ''User'' (users s) (\<lambda>u. username u = name) [] of
        Inl e \<Rightarrow> Inl e
      | Inr author \<Rightarrow>
          (let post_list = profile_post_list s author;
               page_number = req_page request;
               page_obj = get_page post_list 10 page_number
           in Inr (Render_profile author page_obj)))"

subsection \<open>The single post: post_detail\<close>

text \<open>
  \<^verbatim>\<open>request.user == post.author\<close> compares primary keys; the anonymous user is
  ruled out before by \<^verbatim>\<open>is_authenticated\<close>.
\<close>

definition post_detail :: "store \<Rightarrow> timestamp \<Rightarrow> request \<Rightarrow> nat \<Rightarrow> error + response" where
  "post_detail s now request post_id =
     (case get_object_or_404 ''Post'' (posts s) (\<lambda>p. post_pk p = post_id) [post_id] of
        Inl e \<Rightarrow> Inl e
      | Inr post \<Rightarrow>
          (let is_author =
                 (case req_user request of
                    None \<Rightarrow> False
                  | Some u \<Rightarrow> user_pk u = author_id post);
               is_published' =
                 (is_published post \<and>
                  (case post_category s post of
                     None \<Rightarrow> True
                   | Some c \<Rightarrow> category_is_published c) \<and>
                  pub_date post \<le> now)
           in if \<not> is_published' \<and> \<not> is_author then Inl (Http404 ''Post not found'')
              else
                (let comments' = sort_key created_at (post_comments s post)
                 in Inr (Render_detail post comments'
                           (if req_user request \<noteq> None then Some Unbound else None)))))"

subsection \<open>Forms\<close>

text \<open>A model form reads the submitted values of its \<^verbatim>\<open>Meta.fields\<close> and no other.\<close>

definition PostForm_fields :: "string list" where
  "PostForm_fields = [''title'', ''text'', ''pub_date'', ''location'', ''category'', ''image'']"

definition CommentForm_fields :: "string list" where
  "CommentForm_fields = [''text'']"

definition form_data :: "string list \<Rightarrow> (string \<rightharpoonup> string) \<Rightarrow> (string \<rightharpoonup> string)" where
  "form_data names data = data |` set names"

text \<open>The \<^verbatim>\<open>cleaned_data\<close> of a valid \<^verbatim>\<open>PostForm\<close>.\<close>

record post_cleaned =
  cleaned_title :: string
  cleaned_text :: string
  cleaned_pub_date :: timestamp
  cleaned_location :: "nat option"
  cleaned_category :: "nat option"
  cleaned_image :: string

text \<open>
  Which submitted values a \<^verbatim>\<open>PostForm\<close> accepts follows from the field declarations
  of the Post model, and so does the \<^verbatim>\<open>is_published\<close> of a new post. Both are
  parameters of the handlers: \<open>PostForm_clean\<close> gives the cleaned data of the
  submitted values, or \<open>None\<close> when \<^verbatim>\<open>is_valid()\<close> is false.
\<close>

record post_model =
  PostForm_clean :: "store \<Rightarrow> (string \<rightharpoonup> string) \<Rightarrow> post_cleaned option"
  is_published_default :: bool

text \<open>\<^verbatim>\<open>form.save(commit=False)\<close>: the instance with the form's fields set.\<close>

definition PostForm_save :: "post \<Rightarrow> post_cleaned \<Rightarrow> post" where
  "PostForm_save instance cd =
     instance\<lparr>post_title := cleaned_title cd,
              post_text := cleaned_text cd,
              pub_date := cleaned_pub_date cd,
              location_id := cleaned_location cd,
              category_id := cleaned_category cd,
              image := cleaned_image cd\<rparr>"

text \<open>
  \<^verbatim>\<open>Post()\<close>, the instance a form without \<^verbatim>\<open>instance\<close> starts from. Its key and
  author are unset in Python; here they hold 0 until \<^verbatim>\<open>post.author = ...\<close> and the
  insert set them.
\<close>

definition Post_init :: "post_model \<Rightarrow> post" where
  "Post_init M =
     \<lparr>post_pk = 0, post_title = [], post_text = [], pub_date = 0, image = [],
      is_published = is_published_default M, author_id = 0,
      category_id = None, location_id = None\<rparr>"

text \<open>
  Modelled from the spec: the Comment model's declaration of \<^verbatim>\<open>text\<close> is in the
  missing \<^verbatim>\<open>blog/models.py\<close>. The spec has a single free-text field and a validation
  failure for an empty text; so a \<^verbatim>\<open>CommentForm\<close> is valid iff a non-empty text was
  submitted, and its cleaned data is that text. The framework's trimming of surrounding
  white space is left out.
\<close>

definition CommentForm_clean :: "(string \<rightharpoonup> string) \<Rightarrow> string option" where
  "CommentForm_clean data =
     (case data ''text'' of
        None \<Rightarrow> None
      | Some t \<Rightarrow> if t = [] then None else Some t)"

subsection \<open>Writes to the database\<close>

text \<open>\<^verbatim>\<open>save()\<close> of a new row inserts it under the next key of its table.\<close>

definition insert_post :: "store \<Rightarrow> post \<Rightarrow> store" where
  "insert_post s p =
     s\<lparr>posts := posts s @ [p\<lparr>post_pk := post_seq s\<rparr>], post_seq := Suc (post_seq s)\<rparr>"

definition insert_comment :: "store \<Rightarrow> comment \<Rightarrow> store" where
  "insert_comment s c =
     s\<lparr>comments := comments s @ [c\<lparr>comment_pk := comment_seq s\<rparr>],
       comment_seq := Suc (comment_seq s)\<rparr>"

text \<open>\<^verbatim>\<open>save()\<close> of an existing row updates the row with its key.\<close>

definition update_post :: "store \<Rightarrow> post \<Rightarrow> store" where
  "update_post s p =
     s\<lparr>posts := map (\<lambda>q. if post_pk q = post_pk p then p else q) (posts s)\<rparr>"

definition update_comment :: "store \<Rightarrow> comment \<Rightarrow> store" where
  "update_comment s c =
     s\<lparr>comments := map (\<lambda>d. if comment_pk d = comment_pk c then c else d) (comments s)\<rparr>"

text \<open>
  Modelled from the spec: what deleting a post does to its comments is declared in the
  missing \<^verbatim>\<open>blog/models.py\<close>. The spec requires every comment to have a post, so
  the comments of a deleted post go with it.
\<close>

definition delete_post_row :: "store \<Rightarrow> post \<Rightarrow> store" where
  "delete_post_row s p =
     s\<lparr>posts := filter (\<lambda>q. post_pk q \<noteq> post_pk p) (posts s),
       comments := filter (\<lambda>c. comment_post_id c \<noteq> post_pk p) (comments s)\<rparr>"

definition delete_comment_row :: "store \<Rightarrow> comment \<Rightarrow> store" where
  "delete_comment_row s c =
     s\<lparr>comments := filter (\<lambda>d. comment_pk d \<noteq> comment_pk c) (comments s)\<rparr>"

subsection \<open>Decorators\<close>

type_synonym view = "request \<Rightarrow> store \<Rightarrow> error + response \<times> store"

text \<open>
  \<^verbatim>\<open>@login_required\<close>: an anonymous request is redirected to the login page; the
  view runs with \<^verbatim>\<open>request.user\<close> otherwise.
\<close>

definition login_required :: "(user \<Rightarrow> view) \<Rightarrow> view" where
  "login_required v request s =
     (case req_user request of
        None \<Rightarrow> Inr (Redirect Route_login, s)
      | Some u \<Rightarrow> v u request s)"

text \<open>\<^verbatim>\<open>@require_http_methods(ms)\<close>: any other method is answered 405.\<close>

definition require_http_methods :: "http_method list \<Rightarrow> view \<Rightarrow> view" where
  "require_http_methods ms v request s =
     (if req_method request \<in> set ms then v request s
      else Inr (HttpResponseNotAllowed ms, s))"

subsection \<open>Posts: post_create, post_edit, post_delete\<close>

definition post_create :: "post_model \<Rightarrow> view" where
  "post_create M =
     login_required (\<lambda>user request s.
       if req_method request = POST then
         (let form = form_data PostForm_fields (req_POST request)
          in case PostForm_clean M s form of
               Some cd \<Rightarrow>
                 (let post = PostForm_save (Post_init M) cd;
                      post = post\<lparr>author_id := user_pk user\<rparr>
                  in Inr (Redirect (Route_profile (username user)), insert_post s post))
             | None \<Rightarrow> Inr (Render_create (Bound_invalid form), s))
       else Inr (Render_create Unbound, s))"

definition post_edit :: "post_model \<Rightarrow> nat \<Rightarrow> view" where
  "post_edit M post_id =
     login_required (\<lambda>user request s.
       case get_object_or_404 ''Post'' (posts s) (\<lambda>p. post_pk p = post_id) [post_id] of
         Inl e \<Rightarrow> Inl e
       | Inr post \<Rightarrow>
           if author_id post \<noteq> user_pk user then Inr (Redirect (Route_post_detail post_id), s)
           else if req_method request = POST then
             (let form = form_data PostForm_fields (req_POST request)
              in case PostForm_clean M s form of
                   Some cd \<Rightarrow>
                     (let post = PostForm_save post cd;
                          post = post\<lparr>author_id := user_pk user\<rparr>
                      in Inr (Redirect (Route_post_detail post_id), update_post s post))
                 | None \<Rightarrow> Inr (Render_create (Bound_invalid form), s))
           else Inr (Render_create (Instance post), s))"

definition post_delete :: "nat \<Rightarrow> view" where
  "post_delete post_id =
     login_required (\<lambda>user.
       require_http_methods [GET, POST] (\<lambda>request s.
         case get_object_or_404 ''Post'' (posts s) (\<lambda>p. post_pk p = post_id) [post_id] of
           Inl e \<Rightarrow> Inl e
         | Inr post \<Rightarrow>
             if author_id post \<noteq> user_pk user then Inr (Redirect (Route_post_detail post_id), s)
             else if req_method request = POST then
               Inr (Redirect (Route_profile (username user)), delete_post_row s post)
             else Inr (Render_create (Instance post), s)))"

subsection \<open>Comments: add_comment, edit_comment, delete_comment\<close>

text \<open>
  A new comment's \<^verbatim>\<open>created_at\<close> is the time of the insert (the spec's creation
  timestamp), so \<^verbatim>\<open>add_comment\<close> takes the clock.
\<close>

definition add_comment :: "timestamp \<Rightarrow> nat \<Rightarrow> view" where
  "add_comment now post_id =
     login_required (\<lambda>user request s.
       case get_object_or_404 ''Post'' (posts s) (\<lambda>p. post_pk p = post_id) [post_id] of
         Inl e \<Rightarrow> Inl e
       | Inr post \<Rightarrow>
           (let form = form_data CommentForm_fields (req_POST request)
            in case CommentForm_clean form of
                 Some t \<Rightarrow>
                   (let comment' = \<lparr>comment_pk = 0, comment_text = t, created_at = now,
                                    comment_author_id = user_pk user,
                                    comment_post_id = post_pk post\<rparr>
                    in Inr (Redirect (Route_post_detail post_id), insert_comment s comment'))
               | None \<Rightarrow> Inr (Redirect (Route_post_detail post_id), s)))"

definition edit_comment :: "nat \<Rightarrow> nat \<Rightarrow> view" where
  "edit_comment post_id comment_id =
     login_required (\<lambda>user request s.
       case get_object_or_404 ''Comment'' (comments s)
              (\<lambda>c. comment_pk c = comment_id \<and> comment_post_id c = post_id)
              [comment_id, post_id] of
         Inl e \<Rightarrow> Inl e
       | Inr comment' \<Rightarrow>
           if comment_author_id comment' \<noteq> user_pk user
           then Inr (Redirect (Route_post_detail post_id), s)
           else if req_method request = POST then
             (let form = form_data CommentForm_fields (req_POST request)
              in case CommentForm_clean form of
                   Some t \<Rightarrow>
                     Inr (Redirect (Route_post_detail post_id),
                          update_comment s (comment'\<lparr>comment_text := t\<rparr>))
                 | None \<Rightarrow> Inr (Render_comment (Some (Bound_invalid form)) comment', s))
           else Inr (Render_comment (Some (Instance comment')) comment', s))"

definition delete_comment :: "nat \<Rightarrow> nat \<Rightarrow> view" where
  "delete_comment post_id comment_id =
     login_required (\<lambda>user.
       require_http_methods [GET, POST] (\<lambda>request s.
         case get_object_or_404 ''Comment'' (comments s)
                (\<lambda>c. comment_pk c = comment_id \<and> comment_post_id c = post_id)
                [comment_id, post_id] of
           Inl e \<Rightarrow> Inl e
         | Inr comment' \<Rightarrow>
             if comment_author_id comment' \<noteq> user_pk user
             then Inr (Redirect (Route_post_detail post_id), s)
             else if req_method request = POST then
               Inr (Redirect (Route_post_detail post_id), delete_comment_row s comment')
             else Inr (Render_comment None comment', s)))"

subsection \<open>A sample database\<close>

text \<open>
  Two users, a published and an unpublished category, and five posts: a plain public
  one, an unpublished one, one without category, one dated in the future and one in the
  unpublished category. The clock of the examples is 500.
\<close>

definition alice :: user where
  "alice = \<lparr>user_pk = 1, username = ''alice'', first_name = ''Alice'', last_name = ''A'',
            email = ''alice@example.org''\<rparr>"

definition bob :: user where
  "bob = \<lparr>user_pk = 2, username = ''bob'', first_name = ''Bob'', last_name = ''B'',
          email = ''bob@example.org''\<rparr>"

definition travel :: category where
  "travel = \<lparr>category_pk = 1, category_title = ''Travel'', slug = ''travel'',
             category_is_published = True\<rparr>"

definition drafts :: category where
  "drafts = \<lparr>category_pk = 2, category_title = ''Drafts'', slug = ''drafts'',
             category_is_published = False\<rparr>"

definition post1 :: post where
  "post1 = \<lparr>post_pk = 1, post_title = ''One'', post_text = ''first'', pub_date = 100,
            image = [], is_published = True, author_id = 1, category_id = Some 1,
            location_id = None\<rparr>"

definition post2 :: post where
  "post2 = \<lparr>post_pk = 2, post_title = ''Two'', post_text = ''hidden'', pub_date = 200,
            image = [], is_published = False, author_id = 1, category_id = Some 1,
            location_id = None\<rparr>"

definition post3 :: post where
  "post3 = \<lparr>post_pk = 3, post_title = ''Three'', post_text = ''loose'', pub_date = 50,
            image = [], is_published = True, author_id = 2, category_id = None,
            location_id = None\<rparr>"

definition post4 :: post where
  "post4 = \<lparr>post_pk = 4, post_title = ''Four'', post_text = ''later'', pub_date = 900,
            image = [], is_published = True, author_id = 2, category_id = Some 1,
            location_id = None\<rparr>"

definition post5 :: post where
  "post5 = \<lparr>post_pk = 5, post_title = ''Five'', post_text = ''draft'', pub_date = 60,
            image = [], is_published = True, author_id = 2, category_id = Some 2,
            location_id = None\<rparr>"

definition comment1 :: comment where
  "comment1 = \<lparr>comment_pk = 1, comment_text = ''late'', created_at = 150,
               comment_author_id = 2, comment_post_id = 1\<rparr>"

definition comment2 :: comment where
  "comment2 = \<lparr>comment_pk = 2, comment_text = ''early'', created_at = 120,
               comment_author_id = 1, comment_post_id = 1\<rparr>"

definition sample :: store where
  "sample = \<lparr>users = [alice, bob], categories = [travel, drafts],
             posts = [post1, post2, post3, post4, post5],
             comments = [comment1, comment2], post_seq = 6, comment_seq = 3\<rparr>"

definition anonymous_get :: request where
  "anonymous_get = \<lparr>req_method = GET, req_user = None, req_page = None, req_POST = Map.empty\<rparr>"

definition request_of :: "http_method \<Rightarrow> user \<Rightarrow> (string \<rightharpoonup> string) \<Rightarrow> request" where
  "request_of m u data = \<lparr>req_method = m, req_user = Some u, req_page = None, req_POST = data\<rparr>"

text \<open>A database of twelve public posts of one author, the \<open>k\<close>-th published at time \<open>k\<close>.\<close>

definition nth_post :: "nat \<Rightarrow> post" where
  "nth_post k = \<lparr>post_pk = k, post_title = ''Post'', post_text = [], pub_date = int k,
                 image = [], is_published = True, author_id = 1, category_id = Some 1,
                 location_id = None\<rparr>"

definition busy :: store where
  "busy = \<lparr>users = [alice], categories = [travel], posts = map nth_post [1..<13],
           comments = [], post_seq = 13, comment_seq = 1\<rparr>"

text \<open>
  A stand-in for the Post model's validation in the examples: title and text are
  required, and every accepted post is dated 700.
\<close>

definition sample_model :: post_model where
  "sample_model =
     \<lparr>PostForm_clean = (\<lambda>s data.
          case data ''title'' of
            None \<Rightarrow> None
          | Some t \<Rightarrow>
              (case data ''text'' of
                 None \<Rightarrow> None
               | Some x \<Rightarrow>
                   Some \<lparr>cleaned_title = t, cleaned_text = x, cleaned_pub_date = 700,
                         cleaned_location = None, cleaned_category = None,
                         cleaned_image = []\<rparr>)),
      is_published_default = True\<rparr>"

section \<open>Auxiliary lemmas\<close>

subsection \<open>Ordering, pagination and lookups\<close>

lemma set_order_by_pub_date_desc: "set (order_by_pub_date_desc rows) = set rows"
  by (simp add: order_by_pub_date_desc_def)

lemma sorted_order_by_pub_date_desc:
  "sorted_wrt (\<lambda>a b. pub_date (fst b) \<le> pub_date (fst a)) (order_by_pub_date_desc rows)"
proof -
  have "sorted (map (\<lambda>row. - pub_date (fst row)) (order_by_pub_date_desc rows))"
    unfolding order_by_pub_date_desc_def by (rule sorted_sort_key)
  then show ?thesis
    by (simp add: sorted_map)
qed

lemma num_pages_pos: "0 < num_pages xs 10"
  by (simp add: num_pages_def)

lemma object_list_paginator_page:
  "object_list (paginator_page xs 10 n) = take 10 (drop ((n - 1) * 10) xs)"
  by (auto simp: paginator_page_def Let_def)

lemma number_get_page:
  "1 \<le> number (get_page xs 10 n) \<and> number (get_page xs 10 n) \<le> num_pages xs 10"
  using num_pages_pos [of xs]
  by (auto simp: get_page_def validate_number_def paginator_page_def Let_def
      split: option.splits page_error.splits sum.splits if_splits)

lemma object_list_get_page:
  "object_list (get_page xs 10 n) = take 10 (drop ((number (get_page xs 10 n) - 1) * 10) xs)"
  by (auto simp: get_page_def object_list_paginator_page paginator_page_def Let_def
      split: option.splits page_error.splits sum.splits)

lemma set_get_page_subset: "set (object_list (get_page xs 10 n)) \<subseteq> set xs"
  unfolding object_list_get_page
  by (meson set_take_subset set_drop_subset subset_trans)

lemma length_get_page: "length (object_list (get_page xs 10 n)) \<le> 10"
  unfolding object_list_get_page by simp

lemma get_page_in_range:
  assumes "1 \<le> k" "k \<le> num_pages xs 10"
  shows "get_page xs 10 (Some (int k)) = paginator_page xs 10 k"
  using assms by (simp add: get_page_def validate_number_def)

lemma page_of_index_le: "i < length xs \<Longrightarrow> i div 10 + 1 \<le> num_pages xs 10"
  by (simp add: num_pages_def max_def)

lemma get_page_covers:
  assumes "i < length xs"
  shows "xs ! i \<in> set (object_list (get_page xs 10 (Some (int (i div 10 + 1)))))"
proof -
  have "get_page xs 10 (Some (int (i div 10 + 1))) = paginator_page xs 10 (i div 10 + 1)"
    by (rule get_page_in_range) (use assms page_of_index_le in auto)
  moreover have "xs ! i \<in> set (take 10 (drop (i div 10 * 10) xs))"
  proof -
    have a: "i div 10 * 10 + i mod 10 = i" by simp
    have b: "i mod 10 < length (take 10 (drop (i div 10 * 10) xs))"
      using assms by simp arith
    have "take 10 (drop (i div 10 * 10) xs) ! (i mod 10) = xs ! i"
      using assms a by (simp add: )
    then show ?thesis using b by (metis nth_mem)
  qed
  ultimately show ?thesis by (simp add: object_list_paginator_page)
qed

lemma some_page_has:
  "x \<in> set xs \<longleftrightarrow> (\<exists>n. x \<in> set (object_list (get_page xs 10 n)))"
  using get_page_covers set_get_page_subset
  by (metis in_set_conv_nth subsetD)

lemma filter_unique_key:
  "distinct (map k xs) \<Longrightarrow> x \<in> set xs \<Longrightarrow> Q x \<Longrightarrow> filter (\<lambda>y. k y = k x \<and> Q y) xs = [x]"
proof (induction xs)
  case Nil
  then show ?case by simp
next
  case (Cons a xs)
  show ?case
  proof (cases "a = x")
    case True
    have "k x \<notin> k ` set xs"
      using Cons.prems(1) True by simp
    then have "\<forall>y\<in>set xs. k y \<noteq> k x"
      by (metis imageI)
    then have "filter (\<lambda>y. k y = k x \<and> Q y) xs = []"
      by (simp add: filter_empty_conv)
    with True Cons.prems(3) show ?thesis by simp
  next
    case False
    with Cons.prems have "x \<in> set xs" "k a \<noteq> k x" by auto
    with Cons show ?thesis by simp
  qed
qed

lemma get_object_or_404_found:
  "distinct (map k xs) \<Longrightarrow> x \<in> set xs \<Longrightarrow> Q x \<Longrightarrow>
     get_object_or_404 name xs (\<lambda>y. k y = k x \<and> Q y) ints = Inr x"
  by (simp add: get_object_or_404_def filter_unique_key)

lemma get_object_or_404_found_key:
  "distinct (map k xs) \<Longrightarrow> x \<in> set xs \<Longrightarrow>
     get_object_or_404 name xs (\<lambda>y. k y = k x) ints = Inr x"
  using get_object_or_404_found [of k xs x "\<lambda>_. True" name ints] by simp

lemma get_object_or_404_none:
  "(\<forall>x\<in>set xs. \<not> cond x) \<Longrightarrow>
     get_object_or_404 name xs cond ints =
       (if list_ex (\<lambda>i. i > max_db_int) ints then Inl OverflowError
        else Inl (Http404 (no_match_message name)))"
  by (simp add: get_object_or_404_def filter_empty_conv [THEN iffD2])

lemma no_match_messages:
  "no_match_message ''Post'' = ''No Post matches the given query.''"
  "no_match_message ''Category'' = ''No Category matches the given query.''"
  "no_match_message ''User'' = ''No User matches the given query.''"
  "no_match_message ''Comment'' = ''No Comment matches the given query.''"
  by (simp_all add: no_match_message_def)

lemma get_object_or_404_Inr:
  "get_object_or_404 name xs cond ints = Inr x \<Longrightarrow> x \<in> set xs \<and> cond x"
proof -
  assume "get_object_or_404 name xs cond ints = Inr x"
  then have "filter cond xs = [x]"
    by (auto simp: get_object_or_404_def split: list.splits if_splits)
  then have "x \<in> set (filter cond xs)" by simp
  then show ?thesis by simp
qed

lemma set_index_post_list:
  "fst ` set (index_post_list s now) =
     {p \<in> set (posts s). is_published p \<and> category__is_published s p \<and> pub_date p \<le> now \<and>
        \<not> category__isnull p}"
  by (auto simp: index_post_list_def set_order_by_pub_date_desc annotate_comment_count_def
      image_iff)

lemma category__is_published_iff:
  "category__is_published s p \<longleftrightarrow> (\<exists>c. post_category s p = Some c \<and> category_is_published c)"
  by (simp add: category__is_published_def split: option.splits)

lemma post_category_Some_not_null: "post_category s p = Some c \<Longrightarrow> \<not> category__isnull p"
  by (auto simp: post_category_def category__isnull_def split: option.splits)

lemma listed_on_some_page:
  "(\<exists>n. P \<in> fst ` set (object_list (get_page xs 10 n))) \<longleftrightarrow> P \<in> fst ` set xs"
proof
  assume "\<exists>n. P \<in> fst ` set (object_list (get_page xs 10 n))"
  then obtain n x where "x \<in> set (object_list (get_page xs 10 n))" "fst x = P"
    by auto
  then show "P \<in> fst ` set xs"
    using set_get_page_subset [of xs n] by auto
next
  assume "P \<in> fst ` set xs"
  then obtain x where x: "x \<in> set xs" "fst x = P"
    by auto
  then obtain n where "x \<in> set (object_list (get_page xs 10 n))"
    using some_page_has [of x xs] by blast
  with x show "\<exists>n. P \<in> fst ` set (object_list (get_page xs 10 n))"
    by (metis imageI)
qed


text \<open>The definitions of the sample database, for evaluating the handlers on it.\<close>

lemmas sample_defs = sample_def alice_def bob_def travel_def drafts_def post1_def post2_def
  post3_def post4_def post5_def comment1_def comment2_def anonymous_get_def request_of_def

subsection \<open>The single post\<close>

lemma post_detail_found:
  assumes "distinct (map post_pk (posts s))" "P \<in> set (posts s)"
  shows "post_detail s now request (post_pk P) =
     (if \<not> (is_published P \<and>
              (case post_category s P of None \<Rightarrow> True | Some c \<Rightarrow> category_is_published c) \<and>
              pub_date P \<le> now) \<and>
         \<not> (case req_user request of None \<Rightarrow> False | Some u \<Rightarrow> user_pk u = author_id P)
      then Inl (Http404 ''Post not found'')
      else Inr (Render_detail P (sort_key created_at (post_comments s P))
                  (if req_user request \<noteq> None then Some Unbound else None)))"
  using get_object_or_404_found_key [OF assms]
  by (simp add: post_detail_def Let_def)

lemma post_detail_missing:
  "\<forall>p\<in>set (posts s). post_pk p \<noteq> i \<Longrightarrow>
     post_detail s now request i =
       (if i > max_db_int then Inl OverflowError
        else Inl (Http404 ''No Post matches the given query.''))"
  by (simp add: post_detail_def get_object_or_404_none no_match_messages)


subsection \<open>The category and profile feeds\<close>

lemma set_category_post_list:
  "fst ` set (category_post_list s now c) =
     {p \<in> set (posts s). category_id p = Some (category_pk c) \<and> is_published p \<and> pub_date p \<le> now}"
  by (auto simp: category_post_list_def set_order_by_pub_date_desc annotate_comment_count_def
      image_iff)

lemma set_profile_post_list:
  "fst ` set (profile_post_list s a) = {p \<in> set (posts s). author_id p = user_pk a}"
  by (auto simp: profile_post_list_def set_order_by_pub_date_desc annotate_comment_count_def
      image_iff)

lemma category_posts_found:
  assumes "distinct (map slug (categories s))" "c \<in> set (categories s)" "category_is_published c"
  shows "category_posts s now request (slug c) =
           Inr (Render_category c (get_page (category_post_list s now c) 10 (req_page request)))"
  using get_object_or_404_found [OF assms(1,2), of category_is_published, OF assms(3)]
  by (simp add: category_posts_def Let_def)

lemma category_posts_hidden:
  assumes "distinct (map slug (categories s))" "c \<in> set (categories s)" "\<not> category_is_published c"
  shows "category_posts s now request (slug c) = Inl (Http404 ''No Category matches the given query.'')"
proof -
  have "\<forall>x\<in>set (categories s). \<not> (slug x = slug c \<and> category_is_published x)"
    using assms by (metis distinct_map inj_onD)
  then show ?thesis
    by (simp add: category_posts_def get_object_or_404_none no_match_messages)
qed

lemma category_posts_missing:
  "\<forall>c\<in>set (categories s). slug c \<noteq> sl \<Longrightarrow> category_posts s now request sl = Inl (Http404 ''No Category matches the given query.'')"
  by (simp add: category_posts_def get_object_or_404_none no_match_messages)

lemma comment_count_order_by:
  "(P, k) \<in> set (order_by_pub_date_desc (map (annotate_comment_count s) ps)) \<Longrightarrow>
     k = length (filter (\<lambda>c. comment_post_id c = post_pk P) (comments s))"
  by (auto simp: set_order_by_pub_date_desc annotate_comment_count_def post_comments_def)

lemma profile_found:
  assumes "distinct (map username (users s))" "a \<in> set (users s)"
  shows "profile s request (username a) =
           Inr (Render_profile a (get_page (profile_post_list s a) 10 (req_page request)))"
  using get_object_or_404_found_key [OF assms]
  by (simp add: profile_def Let_def)

lemma profile_missing:
  "\<forall>u\<in>set (users s). username u \<noteq> name \<Longrightarrow> profile s request name = Inl (Http404 ''No User matches the given query.'')"
  by (simp add: profile_def get_object_or_404_none no_match_messages)

lemma profile_listed_iff:
  "(\<exists>n. P \<in> fst ` set (object_list (get_page (profile_post_list s a) 10 n))) \<longleftrightarrow>
     P \<in> set (posts s) \<and> author_id P = user_pk a"
  using listed_on_some_page [of P "profile_post_list s a"]
  by (simp add: set_profile_post_list)

lemma profile_post_list_bob:
  "profile_post_list sample bob = [(post4, 0), (post5, 0), (post3, 0)]"
  by (simp add: profile_post_list_def order_by_pub_date_desc_def annotate_comment_count_def
      post_comments_def sample_defs)

lemma get_page_short:
  "length xs \<le> 10 \<Longrightarrow>
     get_page xs 10 None = \<lparr>object_list = xs, number = 1, paginator_num_pages = 1\<rparr>"
proof -
  assume "length xs \<le> 10"
  then have "num_pages xs 10 = 1"
    unfolding num_pages_def max_def by (cases "length xs = 0") auto
  then show ?thesis
    using \<open>length xs \<le> 10\<close>
    by (simp add: get_page_def validate_number_def paginator_page_def)
qed

subsection \<open>Order and pages of the listings\<close>

lemma sorted_index_post_list:
  "sorted_wrt (\<lambda>x y. pub_date (fst y) \<le> pub_date (fst x)) (index_post_list s now)"
  unfolding index_post_list_def by (rule sorted_order_by_pub_date_desc)

lemma sorted_category_post_list:
  "sorted_wrt (\<lambda>x y. pub_date (fst y) \<le> pub_date (fst x)) (category_post_list s now c)"
  unfolding category_post_list_def by (rule sorted_order_by_pub_date_desc)

lemma sorted_profile_post_list:
  "sorted_wrt (\<lambda>x y. pub_date (fst y) \<le> pub_date (fst x)) (profile_post_list s a)"
  unfolding profile_post_list_def by (rule sorted_order_by_pub_date_desc)

lemma page_slice:
  "object_list (get_page xs 10 n) = take 10 (drop ((number (get_page xs 10 n) - 1) * 10) xs) \<and>
   length (object_list (get_page xs 10 n)) \<le> 10 \<and>
   1 \<le> number (get_page xs 10 n) \<and> number (get_page xs 10 n) \<le> num_pages xs 10"
  using object_list_get_page [of xs n] length_get_page [of xs n] number_get_page [of xs n]
  by blast

lemma category_posts_Inr:
  assumes "category_posts s now request sl = Inr r"
  obtains c where "r = Render_category c (get_page (category_post_list s now c) 10 (req_page request))"
  using assms by (auto simp: category_posts_def Let_def split: sum.splits)

lemma profile_Inr:
  assumes "profile s request name = Inr r"
  obtains a where "r = Render_profile a (get_page (profile_post_list s a) 10 (req_page request))"
  using assms by (auto simp: profile_def Let_def split: sum.splits)

lemma post_detail_Inr:
  assumes "post_detail s now request i = Inr r"
  obtains P where "r = Render_detail P (sort_key created_at (post_comments s P))
                        (if req_user request \<noteq> None then Some Unbound else None)"
  using assms by (auto simp: post_detail_def Let_def split: sum.splits if_splits)

text \<open>The handlers evaluated on the sample databases.\<close>

lemma busy_posts: "posts busy = map nth_post [1, 2, 3, 4, 5, 6, 7, 8, 9, 10, 11, 12]"
proof -
  have "[1..<13] = [1, 2, 3, 4, 5, 6, 7, 8, 9, 10, 11, 12::nat]"
    by (simp add: upt_rec)
  then show ?thesis by (simp add: busy_def)
qed

lemma busy_tables: "comments busy = []" "categories busy = [travel]" "users busy = [alice]"
  by (simp_all add: busy_def)

lemma index_post_list_busy:
  "index_post_list busy 500 =
     map (\<lambda>k. (nth_post k, 0)) [12, 11, 10, 9, 8, 7, 6, 5, 4, 3, 2, 1]"
  by (simp add: index_post_list_def busy_posts order_by_pub_date_desc_def
      annotate_comment_count_def post_comments_def category__isnull_def
      category__is_published_def post_category_def nth_post_def busy_tables travel_def)

lemma get_page_busy_2:
  "get_page (map (\<lambda>k. (nth_post k, 0::nat)) [12, 11, 10, 9, 8, 7, 6, 5, 4, 3, 2, 1]) 10 (Some 2) =
     \<lparr>object_list = [(nth_post 2, 0), (nth_post 1, 0)], number = 2, paginator_num_pages = 2\<rparr>"
  by (simp add: get_page_def validate_number_def num_pages_def paginator_page_def)

lemma index_busy_page2:
  "index busy 500 (anonymous_get\<lparr>req_page := Some 2\<rparr>) =
     Render_index \<lparr>object_list = [(nth_post 2, 0), (nth_post 1, 0)], number = 2,
                   paginator_num_pages = 2\<rparr>"
proof -
  have "req_page (anonymous_get\<lparr>req_page := Some 2\<rparr>) = Some 2"
    by simp
  then show ?thesis
    by (simp only: index_def Let_def index_post_list_busy get_page_busy_2)
qed

lemma post_detail_sample_1:
  "post_detail sample 500 (request_of GET bob Map.empty) 1 =
     Inr (Render_detail post1 [comment2, comment1] (Some Unbound))"
  by (simp add: post_detail_def get_object_or_404_def post_category_def post_comments_def
      sample_defs)


lemma category_post_list_busy:
  "category_post_list busy 500 travel =
     map (\<lambda>k. (nth_post k, 0)) [12, 11, 10, 9, 8, 7, 6, 5, 4, 3, 2, 1]"
  by (simp add: category_post_list_def busy_posts order_by_pub_date_desc_def
      annotate_comment_count_def post_comments_def nth_post_def busy_tables travel_def)

lemma profile_post_list_busy:
  "profile_post_list busy alice =
     map (\<lambda>k. (nth_post k, 0)) [12, 11, 10, 9, 8, 7, 6, 5, 4, 3, 2, 1]"
  by (simp add: profile_post_list_def busy_posts order_by_pub_date_desc_def
      annotate_comment_count_def post_comments_def nth_post_def busy_tables alice_def)

lemma category_posts_busy_page2:
  "category_posts busy 500 (anonymous_get\<lparr>req_page := Some 2\<rparr>) ''travel'' =
     Inr (Render_category travel
            \<lparr>object_list = [(nth_post 2, 0), (nth_post 1, 0)], number = 2,
             paginator_num_pages = 2\<rparr>)"
proof -
  have "get_object_or_404 ''Category'' (categories busy)
          (\<lambda>c. slug c = ''travel'' \<and> category_is_published c) [] = Inr travel"
    by (simp add: get_object_or_404_def busy_tables travel_def)
  moreover have "req_page (anonymous_get\<lparr>req_page := Some 2\<rparr>) = Some 2"
    by simp
  ultimately show ?thesis
    by (simp only: category_posts_def Let_def sum.case category_post_list_busy get_page_busy_2)
qed

lemma profile_busy_page2:
  "profile busy (anonymous_get\<lparr>req_page := Some 2\<rparr>) ''alice'' =
     Inr (Render_profile alice
            \<lparr>object_list = [(nth_post 2, 0), (nth_post 1, 0)], number = 2,
             paginator_num_pages = 2\<rparr>)"
proof -
  have "get_object_or_404 ''User'' (users busy) (\<lambda>u. username u = ''alice'') [] = Inr alice"
    by (simp add: get_object_or_404_def busy_tables alice_def)
  moreover have "req_page (anonymous_get\<lparr>req_page := Some 2\<rparr>) = Some 2"
    by simp
  ultimately show ?thesis
    by (simp only: profile_def Let_def sum.case profile_post_list_busy get_page_busy_2)
qed

subsection \<open>Creating and editing posts\<close>

lemma form_data_ignores_author:
  "form_data PostForm_fields (data(''author'' := v)) = form_data PostForm_fields data"
  by (rule ext) (simp add: form_data_def PostForm_fields_def restrict_map_def)

lemma get_object_or_404_only:
  assumes "get_object_or_404 name xs cond ints = Inr x" and "y \<in> set xs" and "cond y"
  shows "y = x"
proof -
  from assms(1) have "filter cond xs = [x]"
    by (auto simp: get_object_or_404_def split: list.splits if_splits)
  moreover from assms(2,3) have "y \<in> set (filter cond xs)"
    by simp
  ultimately show ?thesis by simp
qed

lemma PostForm_save_keeps [simp]:
  "post_pk (PostForm_save p cd) = post_pk p" "author_id (PostForm_save p cd) = author_id p"
  by (simp_all add: PostForm_save_def)

lemma update_post_keeps:
  assumes "get_object_or_404 ''Post'' (posts s) (\<lambda>p. post_pk p = i) [i] = Inr post"
    and "post_pk p' = i" and "author_id p' = author_id post"
  shows "map post_pk (posts (update_post s p')) = map post_pk (posts s)"
    and "map author_id (posts (update_post s p')) = map author_id (posts s)"
    and "\<exists>p\<in>set (posts (update_post s p')). post_pk p = i"
    and "\<forall>p\<in>set (posts (update_post s p')). post_pk p = i \<longrightarrow> author_id p = author_id post"
proof -
  have only: "\<And>q. q \<in> set (posts s) \<Longrightarrow> post_pk q = i \<Longrightarrow> q = post"
    using get_object_or_404_only [OF assms(1)] by blast
  have mem: "post \<in> set (posts s)" "post_pk post = i"
    using get_object_or_404_Inr [OF assms(1)] by auto
  show "map post_pk (posts (update_post s p')) = map post_pk (posts s)"
    using assms(2) by (simp add: update_post_def)
  show "map author_id (posts (update_post s p')) = map author_id (posts s)"
    using assms(2,3) only by (auto simp: update_post_def)
  show "\<exists>p\<in>set (posts (update_post s p')). post_pk p = i"
    using mem assms(2) by (auto simp: update_post_def)
  show "\<forall>p\<in>set (posts (update_post s p')). post_pk p = i \<longrightarrow> author_id p = author_id post"
    using assms(2,3) by (auto simp: update_post_def)
qed

lemma post_create_valid:
  assumes "req_user request = Some u" and "req_method request = POST"
    and "PostForm_clean M s (form_data PostForm_fields (req_POST request)) = Some cd"
  shows "post_create M request s =
           Inr (Redirect (Route_profile (username u)),
                s\<lparr>posts := posts s @ [(PostForm_save (Post_init M) cd)
                                        \<lparr>author_id := user_pk u, post_pk := post_seq s\<rparr>],
                  post_seq := Suc (post_seq s)\<rparr>)"
  using assms by (simp add: post_create_def login_required_def insert_post_def Let_def)

lemma post_create_outcome:
  assumes "post_create M request s = Inr (resp, s')"
  shows "s' = s \<or>
         (\<exists>u p. req_user request = Some u \<and> posts s' = posts s @ [p] \<and> author_id p = user_pk u)"
  using assms
  by (auto simp: post_create_def login_required_def insert_post_def Let_def
      split: option.splits if_splits)

lemma post_create_ignores_author:
  "post_create M (request\<lparr>req_POST := (req_POST request)(''author'' := v)\<rparr>) s =
     post_create M request s"
  by (simp add: post_create_def login_required_def form_data_ignores_author Let_def
      split: option.splits)

lemma post_edit_valid:
  assumes "req_user request = Some u"
    and "get_object_or_404 ''Post'' (posts s) (\<lambda>p. post_pk p = post_id) [post_id] = Inr post"
    and "author_id post = user_pk u" and "req_method request = POST"
    and "PostForm_clean M s (form_data PostForm_fields (req_POST request)) = Some cd"
  shows "post_edit M post_id request s =
           Inr (Redirect (Route_post_detail post_id),
                update_post s ((PostForm_save post cd)\<lparr>author_id := user_pk u\<rparr>))"
  using assms by (simp add: post_edit_def login_required_def Let_def)

lemma post_edit_outcome:
  assumes "post_edit M post_id request s = Inr (resp, s')"
  shows "map post_pk (posts s') = map post_pk (posts s) \<and>
         map author_id (posts s') = map author_id (posts s)"
proof (cases "req_user request")
  case None
  with assms show ?thesis
    by (simp add: post_edit_def login_required_def)
next
  case (Some u)
  show ?thesis
  proof (cases "get_object_or_404 ''Post'' (posts s) (\<lambda>p. post_pk p = post_id) [post_id]")
    case (Inl e)
    with assms Some show ?thesis
      by (simp add: post_edit_def login_required_def)
  next
    case (Inr post)
    have pk: "post_pk post = post_id"
      using get_object_or_404_Inr [OF Inr] by simp
    show ?thesis
    proof (cases "author_id post = user_pk u \<and> req_method request = POST \<and>
        PostForm_clean M s (form_data PostForm_fields (req_POST request)) \<noteq> None")
      case True
      then obtain cd where cd:
        "PostForm_clean M s (form_data PostForm_fields (req_POST request)) = Some cd"
        by blast
      have "s' = update_post s ((PostForm_save post cd)\<lparr>author_id := user_pk u\<rparr>)"
        using assms post_edit_valid [OF Some Inr _ _ cd] True by simp
      then show ?thesis
        using update_post_keeps(1,2) [OF Inr, of "(PostForm_save post cd)\<lparr>author_id := user_pk u\<rparr>"]
          pk True by simp
    next
      case False
      with assms Some Inr have "s' = s"
        by (auto simp: post_edit_def login_required_def Let_def split: if_splits option.splits)
      then show ?thesis by simp
    qed
  qed
qed

lemma post_edit_ignores_author:
  "post_edit M post_id (request\<lparr>req_POST := (req_POST request)(''author'' := v)\<rparr>) s =
     post_edit M post_id request s"
  by (simp add: post_edit_def login_required_def form_data_ignores_author Let_def
      split: option.splits sum.splits)

lemma sample_clean:
  "PostForm_clean sample_model s
     (form_data PostForm_fields [''title'' \<mapsto> ''New'', ''text'' \<mapsto> ''Body'', ''author'' \<mapsto> a]) =
   Some \<lparr>cleaned_title = ''New'', cleaned_text = ''Body'', cleaned_pub_date = 700,
         cleaned_location = None, cleaned_category = None, cleaned_image = []\<rparr>"
  by (simp add: sample_model_def form_data_def PostForm_fields_def)

lemma get_post1:
  "get_object_or_404 ''Post'' (posts sample) (\<lambda>p. post_pk p = 1) [1] = Inr post1"
  by (simp add: get_object_or_404_def sample_defs)

subsection \<open>The ownership gate\<close>

lemma post_edit_non_owner:
  assumes "req_user request = Some u" and "distinct (map post_pk (posts s))"
    and "P \<in> set (posts s)" and "author_id P \<noteq> user_pk u"
  shows "post_edit M (post_pk P) request s = Inr (Redirect (Route_post_detail (post_pk P)), s)"
  using get_object_or_404_found_key [OF assms(2,3)] assms(1,4)
  by (simp add: post_edit_def login_required_def)

lemma post_delete_non_owner:
  assumes "req_user request = Some u" and "distinct (map post_pk (posts s))"
    and "P \<in> set (posts s)" and "author_id P \<noteq> user_pk u"
  shows "post_delete (post_pk P) request s =
           (if req_method request = GET \<or> req_method request = POST
            then Inr (Redirect (Route_post_detail (post_pk P)), s)
            else Inr (HttpResponseNotAllowed [GET, POST], s))"
  using get_object_or_404_found_key [OF assms(2,3)] assms(1,4)
  by (auto simp: post_delete_def login_required_def require_http_methods_def)

lemma get_comment:
  assumes "distinct (map comment_pk (comments s))" and "C \<in> set (comments s)"
  shows "get_object_or_404 ''Comment'' (comments s)
           (\<lambda>c. comment_pk c = comment_pk C \<and> comment_post_id c = comment_post_id C)
           [comment_pk C, comment_post_id C] = Inr C"
  using get_object_or_404_found [OF assms, of "\<lambda>c. comment_post_id c = comment_post_id C"]
  by simp

lemma edit_comment_non_owner:
  assumes "req_user request = Some u" and "distinct (map comment_pk (comments s))"
    and "C \<in> set (comments s)" and "comment_author_id C \<noteq> user_pk u"
  shows "edit_comment (comment_post_id C) (comment_pk C) request s =
           Inr (Redirect (Route_post_detail (comment_post_id C)), s)"
  using get_comment [OF assms(2,3)] assms(1,4)
  by (simp add: edit_comment_def login_required_def)

lemma delete_comment_non_owner:
  assumes "req_user request = Some u" and "distinct (map comment_pk (comments s))"
    and "C \<in> set (comments s)" and "comment_author_id C \<noteq> user_pk u"
  shows "delete_comment (comment_post_id C) (comment_pk C) request s =
           (if req_method request = GET \<or> req_method request = POST
            then Inr (Redirect (Route_post_detail (comment_post_id C)), s)
            else Inr (HttpResponseNotAllowed [GET, POST], s))"
  using get_comment [OF assms(2,3)] assms(1,4)
  by (auto simp: delete_comment_def login_required_def require_http_methods_def)

subsection \<open>Adding a comment\<close>

lemma CommentForm_clean_empty:
  "data ''text'' = Some [] \<Longrightarrow> CommentForm_clean (form_data CommentForm_fields data) = None"
  by (simp add: CommentForm_clean_def form_data_def CommentForm_fields_def)

lemma CommentForm_clean_text:
  "t \<noteq> [] \<Longrightarrow>
     CommentForm_clean (form_data CommentForm_fields (data(''text'' \<mapsto> t))) = Some t"
  by (simp add: CommentForm_clean_def form_data_def CommentForm_fields_def)

lemma add_comment_found:
  assumes "req_user request = Some u" and "distinct (map post_pk (posts s))"
    and "P \<in> set (posts s)"
  shows "add_comment now (post_pk P) request s =
     (case CommentForm_clean (form_data CommentForm_fields (req_POST request)) of
        Some t \<Rightarrow>
          Inr (Redirect (Route_post_detail (post_pk P)),
               insert_comment s \<lparr>comment_pk = 0, comment_text = t, created_at = now,
                                  comment_author_id = user_pk u,
                                  comment_post_id = post_pk P\<rparr>)
      | None \<Rightarrow> Inr (Redirect (Route_post_detail (post_pk P)), s))"
  using get_object_or_404_found_key [OF assms(2,3)] assms(1)
  by (simp add: add_comment_def login_required_def Let_def split: option.splits)

section \<open>The claims\<close>

subsection \<open>The home feed\<close>

text \<open>
  C1: a post appears in the home feed, that is on some page that \<^verbatim>\<open>index\<close> serves
  at the clock value \<open>now\<close>, iff it is a stored post whose \<^verbatim>\<open>is_published\<close> is
  true, which has a category, whose category's \<^verbatim>\<open>is_published\<close> is true, and whose
  \<^verbatim>\<open>pub_date\<close> is at or before \<open>now\<close>.
\<close>

theorem home_feed_iff:
  "(\<exists>request pg. index s now request = Render_index pg \<and> P \<in> fst ` set (object_list pg)) \<longleftrightarrow>
     P \<in> set (posts s) \<and> is_published P \<and>
     (\<exists>c. post_category s P = Some c \<and> category_is_published c) \<and>
     pub_date P \<le> now"
proof -
  have "(\<exists>request pg. index s now request = Render_index pg \<and> P \<in> fst ` set (object_list pg)) \<longleftrightarrow>
        (\<exists>n. P \<in> fst ` set (object_list (get_page (index_post_list s now) 10 n)))"
  proof
    assume "\<exists>request pg. index s now request = Render_index pg \<and> P \<in> fst ` set (object_list pg)"
    then show "\<exists>n. P \<in> fst ` set (object_list (get_page (index_post_list s now) 10 n))"
      by (auto simp: index_def Let_def)
  next
    assume "\<exists>n. P \<in> fst ` set (object_list (get_page (index_post_list s now) 10 n))"
    then obtain n where n: "P \<in> fst ` set (object_list (get_page (index_post_list s now) 10 n))" ..
    have "index s now \<lparr>req_method = GET, req_user = None, req_page = n, req_POST = Map.empty\<rparr>
            = Render_index (get_page (index_post_list s now) 10 n)"
      by (simp add: index_def)
    with n show "\<exists>request pg. index s now request = Render_index pg \<and> P \<in> fst ` set (object_list pg)"
      by blast
  qed
  also have "\<dots> \<longleftrightarrow> P \<in> fst ` set (index_post_list s now)"
    by (rule listed_on_some_page)
  also have "\<dots> \<longleftrightarrow> P \<in> set (posts s) \<and> is_published P \<and>
     (\<exists>c. post_category s P = Some c \<and> category_is_published c) \<and> pub_date P \<le> now"
    unfolding set_index_post_list category__is_published_iff
    using post_category_Some_not_null by blast
  finally show ?thesis .
qed

subsection \<open>The single-post gate\<close>

text \<open>
  C2, as stated, fails in its last part: the \<^verbatim>\<open>Http404\<close> for a post that is hidden
  from the requester carries the handler's message, the one for an identifier that no
  post has carries the message of \<^verbatim>\<open>get_object_or_404\<close>, and an identifier beyond
  the database's integers ends in \<^verbatim>\<open>OverflowError\<close>. Here the anonymous user asks for
  alice's unpublished post 2, for the missing post 7, and for post \<open>2^63\<close>.
\<close>

theorem hidden_post_counterexample:
  "post2 \<in> set (posts sample) \<and> \<not> is_published post2 \<and>
   post_detail sample 500 anonymous_get (post_pk post2) = Inl (Http404 ''Post not found'') \<and>
   post_detail sample 500 anonymous_get 7 = Inl (Http404 ''No Post matches the given query.'') \<and>
   post_detail sample 500 anonymous_get (post_pk post2) \<noteq> post_detail sample 500 anonymous_get 7 \<and>
   post_detail sample 500 anonymous_get 9223372036854775808 = Inl OverflowError"
  by (simp add: post_detail_def get_object_or_404_def no_match_message_def max_db_int_def
      post_category_def sample_defs)

text \<open>
  C2, amended: for a stored post \<open>P\<close> (primary keys being unique), \<^verbatim>\<open>post_detail\<close>
  serves \<open>P\<close> iff the requester is authenticated and is the author of \<open>P\<close>, or \<open>P\<close>
  is publicly visible: its \<^verbatim>\<open>is_published\<close> is true, its category (if any) is
  published, and its \<^verbatim>\<open>pub_date\<close> is at or before \<open>now\<close>. Otherwise the handler
  raises \<^verbatim>\<open>Http404\<close> with the message \<^verbatim>\<open>Post not found\<close>. For an identifier that no
  post has it raises \<^verbatim>\<open>Http404\<close> as well, with the message
  \<^verbatim>\<open>No Post matches the given query.\<close>, as long as the identifier is one of the
  database's integers, and \<^verbatim>\<open>OverflowError\<close> beyond.
\<close>

theorem post_detail_served_iff:
  assumes "distinct (map post_pk (posts s))" and "P \<in> set (posts s)"
  shows "((\<exists>cs f. post_detail s now request (post_pk P) = Inr (Render_detail P cs f)) \<longleftrightarrow>
            (\<exists>u. req_user request = Some u \<and> user_pk u = author_id P) \<or>
            (is_published P \<and>
             (\<forall>c. post_category s P = Some c \<longrightarrow> category_is_published c) \<and>
             pub_date P \<le> now)) \<and>
         ((\<forall>cs f. post_detail s now request (post_pk P) \<noteq> Inr (Render_detail P cs f)) \<longrightarrow>
            post_detail s now request (post_pk P) = Inl (Http404 ''Post not found'')) \<and>
         (\<forall>i. (\<forall>p\<in>set (posts s). post_pk p \<noteq> i) \<longrightarrow>
            post_detail s now request i =
              (if i \<le> 9223372036854775807
               then Inl (Http404 ''No Post matches the given query.'')
               else Inl OverflowError))"
proof (intro conjI)
  show "(\<exists>cs f. post_detail s now request (post_pk P) = Inr (Render_detail P cs f)) \<longleftrightarrow>
            (\<exists>u. req_user request = Some u \<and> user_pk u = author_id P) \<or>
            (is_published P \<and>
             (\<forall>c. post_category s P = Some c \<longrightarrow> category_is_published c) \<and>
             pub_date P \<le> now)"
    unfolding post_detail_found [OF assms]
    by (auto split: option.splits)
  show "(\<forall>cs f. post_detail s now request (post_pk P) \<noteq> Inr (Render_detail P cs f)) \<longrightarrow>
            post_detail s now request (post_pk P) = Inl (Http404 ''Post not found'')"
    unfolding post_detail_found [OF assms]
    by (auto split: option.splits)
  show "\<forall>i. (\<forall>p\<in>set (posts s). post_pk p \<noteq> i) \<longrightarrow>
            post_detail s now request i =
              (if i \<le> 9223372036854775807
               then Inl (Http404 ''No Post matches the given query.'')
               else Inl OverflowError)"
    using post_detail_missing [of s _ now request] by (auto simp: max_db_int_def)
qed

theorem post_detail_served_iff_witness:
  "distinct (map post_pk (posts sample)) \<and> post2 \<in> set (posts sample) \<and>
   post_detail sample 500 anonymous_get (post_pk post2) = Inl (Http404 ''Post not found'') \<and>
   post_detail sample 500 anonymous_get 7 = Inl (Http404 ''No Post matches the given query.'') \<and>
   post_detail sample 500 (request_of GET alice Map.empty) (post_pk post2) =
     Inr (Render_detail post2 [] (Some Unbound))"
proof -
  have d: "distinct (map post_pk (posts sample))"
    by (simp add: sample_defs)
  have m: "post2 \<in> set (posts sample)"
    by (simp add: sample_defs)
  have a: "req_user anonymous_get = None" "\<not> is_published post2"
    "req_user (request_of GET alice Map.empty) = Some alice" "user_pk alice = author_id post2"
    "\<forall>p\<in>set (posts sample). post_pk p \<noteq> 7"
    by (simp_all add: sample_defs)
  have c: "post_comments sample post2 = []"
    by (simp add: post_comments_def sample_defs)
  from post_detail_served_iff [OF d m, of 500 anonymous_get]
       post_detail_served_iff [OF d m, of 500 "request_of GET alice Map.empty"]
       post_detail_found [OF d m, of 500 "request_of GET alice Map.empty"]
  show ?thesis
    using d m a c by simp
qed

subsection \<open>Posts without category\<close>

text \<open>
  C10: a stored post without category whose \<^verbatim>\<open>is_published\<close> is true and whose
  \<^verbatim>\<open>pub_date\<close> is at or before \<open>now\<close> is served by \<^verbatim>\<open>post_detail\<close> to every
  requester, the anonymous one included, and is on no page of the home feed.
\<close>

theorem uncategorised_post_served_not_listed:
  assumes "distinct (map post_pk (posts s))" and "P \<in> set (posts s)"
    and "category_id P = None" and "is_published P" and "pub_date P \<le> now"
  shows "post_detail s now request (post_pk P) =
           Inr (Render_detail P (sort_key created_at (post_comments s P))
                  (if req_user request \<noteq> None then Some Unbound else None)) \<and>
         (\<forall>request' pg. index s now request' = Render_index pg \<longrightarrow>
            P \<notin> fst ` set (object_list pg))"
proof
  have "post_category s P = None"
    using assms(3) by (simp add: post_category_def)
  then show "post_detail s now request (post_pk P) =
           Inr (Render_detail P (sort_key created_at (post_comments s P))
                  (if req_user request \<noteq> None then Some Unbound else None))"
    using assms(4,5) by (simp add: post_detail_found [OF assms(1,2)])
  have "P \<notin> fst ` set (index_post_list s now)"
    using assms(3) by (simp add: set_index_post_list category__isnull_def)
  then have "\<forall>n. P \<notin> fst ` set (object_list (get_page (index_post_list s now) 10 n))"
    using listed_on_some_page [of P "index_post_list s now"] by blast
  then show "\<forall>request' pg. index s now request' = Render_index pg \<longrightarrow>
            P \<notin> fst ` set (object_list pg)"
    by (auto simp: index_def Let_def)
qed

theorem uncategorised_post_served_not_listed_witness:
  "distinct (map post_pk (posts sample)) \<and> post3 \<in> set (posts sample) \<and>
   category_id post3 = None \<and> is_published post3 \<and> pub_date post3 \<le> 500 \<and>
   post_detail sample 500 anonymous_get (post_pk post3) = Inr (Render_detail post3 [] None) \<and>
   post3 \<notin> fst ` set (object_list (get_page (index_post_list sample 500) 10 None))"
proof -
  have d: "distinct (map post_pk (posts sample))"
    by (simp add: sample_defs)
  have m: "post3 \<in> set (posts sample)"
    by (simp add: sample_defs)
  have h: "category_id post3 = None" "is_published post3" "pub_date post3 \<le> 500"
    by (simp_all add: sample_defs)
  have c: "post_comments sample post3 = []" "req_user anonymous_get = None"
    by (simp_all add: post_comments_def sample_defs)
  have i: "index sample 500 anonymous_get =
             Render_index (get_page (index_post_list sample 500) 10 None)"
    by (simp add: index_def anonymous_get_def)
  from uncategorised_post_served_not_listed [OF d m h, of anonymous_get]
  show ?thesis
    using d m h c i by simp
qed

subsection \<open>The category feed\<close>

text \<open>
  C5: slugs being unique, \<^verbatim>\<open>category_posts\<close> raises \<^verbatim>\<open>Http404\<close> when no
  category has the slug and when the category with the slug is not published. Otherwise
  it renders that category with a page of its listing, and the posts on the pages of the
  listing are exactly the stored posts of that category that pass the public-visibility
  rules: \<^verbatim>\<open>is_published\<close>, a published category, \<^verbatim>\<open>pub_date\<close> at or before
  \<open>now\<close>.
\<close>

theorem category_feed:
  assumes "distinct (map slug (categories s))"
  shows "((\<forall>c\<in>set (categories s). slug c \<noteq> sl) \<longrightarrow>
            category_posts s now request sl = Inl (Http404 ''No Category matches the given query.'')) \<and>
         (\<forall>c\<in>set (categories s). slug c = sl \<and> \<not> category_is_published c \<longrightarrow>
            category_posts s now request sl = Inl (Http404 ''No Category matches the given query.'')) \<and>
         (\<forall>c\<in>set (categories s). slug c = sl \<and> category_is_published c \<longrightarrow>
            category_posts s now request sl =
              Inr (Render_category c
                     (get_page (category_post_list s now c) 10 (req_page request))) \<and>
            (\<forall>P. (\<exists>n. P \<in> fst ` set (object_list (get_page (category_post_list s now c) 10 n))) \<longleftrightarrow>
                  P \<in> set (posts s) \<and> category_id P = Some (category_pk c) \<and>
                  is_published P \<and> category_is_published c \<and> pub_date P \<le> now))"
proof (intro conjI ballI impI allI)
  assume "\<forall>c\<in>set (categories s). slug c \<noteq> sl"
  then show "category_posts s now request sl = Inl (Http404 ''No Category matches the given query.'')"
    by (rule category_posts_missing)
next
  fix c assume "c \<in> set (categories s)" "slug c = sl \<and> \<not> category_is_published c"
  then show "category_posts s now request sl = Inl (Http404 ''No Category matches the given query.'')"
    using category_posts_hidden [OF assms, of c now request] by simp
next
  fix c assume "c \<in> set (categories s)" "slug c = sl \<and> category_is_published c"
  then show "category_posts s now request sl =
              Inr (Render_category c
                     (get_page (category_post_list s now c) 10 (req_page request)))"
    using category_posts_found [OF assms, of c now request] by simp
next
  fix c P assume c: "c \<in> set (categories s)" "slug c = sl \<and> category_is_published c"
  have "(\<exists>n. P \<in> fst ` set (object_list (get_page (category_post_list s now c) 10 n))) \<longleftrightarrow>
        P \<in> fst ` set (category_post_list s now c)"
    by (rule listed_on_some_page)
  then show "(\<exists>n. P \<in> fst ` set (object_list (get_page (category_post_list s now c) 10 n))) \<longleftrightarrow>
                  P \<in> set (posts s) \<and> category_id P = Some (category_pk c) \<and>
                  is_published P \<and> category_is_published c \<and> pub_date P \<le> now"
    using c(2) by (simp add: set_category_post_list)
qed

theorem category_feed_witness:
  "distinct (map slug (categories sample)) \<and>
   category_posts sample 500 anonymous_get ''nowhere'' = Inl (Http404 ''No Category matches the given query.'') \<and>
   category_posts sample 500 anonymous_get ''drafts'' = Inl (Http404 ''No Category matches the given query.'') \<and>
   category_posts sample 500 anonymous_get ''travel'' =
     Inr (Render_category travel
            \<lparr>object_list = [(post1, 2)], number = 1, paginator_num_pages = 1\<rparr>)"
proof -
  have d: "distinct (map slug (categories sample))"
    by (simp add: sample_defs)
  have m: "\<forall>c\<in>set (categories sample). slug c \<noteq> ''nowhere''"
    "drafts \<in> set (categories sample)" "slug drafts = ''drafts''" "\<not> category_is_published drafts"
    "travel \<in> set (categories sample)" "slug travel = ''travel''" "category_is_published travel"
    by (simp_all add: sample_defs)
  have l: "category_post_list sample 500 travel = [(post1, 2)]"
    by (simp add: category_post_list_def order_by_pub_date_desc_def annotate_comment_count_def
        post_comments_def sample_defs)
  have p: "get_page [(post1, 2::nat)] 10 (req_page anonymous_get) =
             \<lparr>object_list = [(post1, 2)], number = 1, paginator_num_pages = 1\<rparr>"
    by (simp add: get_page_def validate_number_def paginator_page_def num_pages_def
        anonymous_get_def)
  have 1: "category_posts sample 500 anonymous_get ''nowhere'' = Inl (Http404 ''No Category matches the given query.'')"
    using category_feed [OF d, of "''nowhere''" 500 anonymous_get] m(1) by blast
  have 2: "category_posts sample 500 anonymous_get ''drafts'' = Inl (Http404 ''No Category matches the given query.'')"
    using category_feed [OF d, of "''drafts''" 500 anonymous_get] m(2,3,4) by blast
  have 3: "category_posts sample 500 anonymous_get ''travel'' =
             Inr (Render_category travel
                    (get_page (category_post_list sample 500 travel) 10 (req_page anonymous_get)))"
    using category_feed [OF d, of "''travel''" 500 anonymous_get] m(5,6,7) by blast
  show ?thesis
    using d 1 2 3 l p by simp
qed

subsection \<open>The profile feed\<close>

text \<open>
  C6: usernames being unique, \<^verbatim>\<open>profile\<close> raises \<^verbatim>\<open>Http404\<close> when no user has
  the name. Otherwise it renders that user with a page of the listing; the posts on the
  pages of the listing are all the stored posts of that author, whatever their
  \<^verbatim>\<open>is_published\<close>, category and \<^verbatim>\<open>pub_date\<close>; each row carries the number of
  the post's comments; the listing is ordered by \<^verbatim>\<open>pub_date\<close>, newest first, and a
  page is a slice of ten consecutive rows of it.
\<close>

theorem profile_feed:
  assumes "distinct (map username (users s))"
  shows "((\<forall>u\<in>set (users s). username u \<noteq> name) \<longrightarrow>
            profile s request name = Inl (Http404 ''No User matches the given query.'')) \<and>
         (\<forall>a\<in>set (users s). username a = name \<longrightarrow>
            profile s request name =
              Inr (Render_profile a (get_page (profile_post_list s a) 10 (req_page request))) \<and>
            (\<forall>P. (\<exists>n. P \<in> fst ` set (object_list (get_page (profile_post_list s a) 10 n))) \<longleftrightarrow>
                  P \<in> set (posts s) \<and> author_id P = user_pk a) \<and>
            (\<forall>(P, k)\<in>set (profile_post_list s a).
                  k = length (filter (\<lambda>c. comment_post_id c = post_pk P) (comments s))) \<and>
            sorted_wrt (\<lambda>x y. pub_date (fst y) \<le> pub_date (fst x)) (profile_post_list s a) \<and>
            (\<forall>n. object_list (get_page (profile_post_list s a) 10 n) =
                   take 10 (drop ((number (get_page (profile_post_list s a) 10 n) - 1) * 10)
                              (profile_post_list s a)) \<and>
                 1 \<le> number (get_page (profile_post_list s a) 10 n) \<and>
                 number (get_page (profile_post_list s a) 10 n) \<le>
                   num_pages (profile_post_list s a) 10))"
proof (rule conjI, goal_cases)
  case 1
  show ?case
    using profile_missing by blast
next
  case 2
  show ?case
  proof (rule ballI, rule impI, goal_cases)
    case (1 a)
    have "profile s request (username a) =
            Inr (Render_profile a (get_page (profile_post_list s a) 10 (req_page request)))"
      using profile_found [OF assms 1(1)] .
    moreover have "\<forall>P. (\<exists>n. P \<in> fst ` set (object_list (get_page (profile_post_list s a) 10 n))) \<longleftrightarrow>
          P \<in> set (posts s) \<and> author_id P = user_pk a"
      using profile_listed_iff by blast
    moreover have "\<forall>(P, k)\<in>set (profile_post_list s a).
          k = length (filter (\<lambda>c. comment_post_id c = post_pk P) (comments s))"
      unfolding profile_post_list_def using comment_count_order_by by blast
    moreover have "sorted_wrt (\<lambda>x y. pub_date (fst y) \<le> pub_date (fst x)) (profile_post_list s a)"
      unfolding profile_post_list_def by (rule sorted_order_by_pub_date_desc)
    moreover have "\<forall>n. object_list (get_page (profile_post_list s a) 10 n) =
                   take 10 (drop ((number (get_page (profile_post_list s a) 10 n) - 1) * 10)
                              (profile_post_list s a)) \<and>
                 1 \<le> number (get_page (profile_post_list s a) 10 n) \<and>
                 number (get_page (profile_post_list s a) 10 n) \<le>
                   num_pages (profile_post_list s a) 10"
      using object_list_get_page number_get_page by blast
    ultimately show ?case
      using 1(2) by blast
  qed
qed

theorem profile_feed_witness:
  "distinct (map username (users sample)) \<and>
   profile sample anonymous_get ''carol'' = Inl (Http404 ''No User matches the given query.'') \<and>
   profile sample anonymous_get ''bob'' =
     Inr (Render_profile bob
            \<lparr>object_list = [(post4, 0), (post5, 0), (post3, 0)], number = 1,
             paginator_num_pages = 1\<rparr>)"
proof -
  have d: "distinct (map username (users sample))"
    by (simp add: sample_defs)
  have m: "\<forall>u\<in>set (users sample). username u \<noteq> ''carol''"
    "bob \<in> set (users sample)" "username bob = ''bob''" "req_page anonymous_get = None"
    by (simp_all add: sample_defs)
  have 1: "profile sample anonymous_get ''carol'' = Inl (Http404 ''No User matches the given query.'')"
    using profile_feed [OF d, of "''carol''" anonymous_get] m(1) by blast
  have 2: "profile sample anonymous_get ''bob'' =
             Inr (Render_profile bob
                    (get_page (profile_post_list sample bob) 10 (req_page anonymous_get)))"
    using profile_feed [OF d, of "''bob''" anonymous_get] m(2,3) by blast
  show ?thesis
    using d 1 2 m(4) by (simp add: profile_post_list_bob get_page_short)
qed

subsection \<open>The profile feed and the requester\<close>

text \<open>
  C9: the response of \<^verbatim>\<open>profile\<close> does not depend on the requester: two requests
  that differ in \<^verbatim>\<open>request.user\<close> only (anonymous or not) get the same response.
  So every stored post of an existing user, unpublished or dated in the future as it may
  be, is on a page of that user's profile for every requester.
\<close>

theorem profile_requester_independent:
  assumes "distinct (map username (users s))" and "a \<in> set (users s)"
    and "P \<in> set (posts s)" and "author_id P = user_pk a"
  shows "profile s (request\<lparr>req_user := u\<rparr>) name = profile s (request\<lparr>req_user := u'\<rparr>) name \<and>
         (\<exists>n pg. profile s (request\<lparr>req_user := u, req_page := n\<rparr>) (username a) =
                    Inr (Render_profile a pg) \<and>
                  P \<in> fst ` set (object_list pg))"
proof
  show "profile s (request\<lparr>req_user := u\<rparr>) name = profile s (request\<lparr>req_user := u'\<rparr>) name"
    by (simp add: profile_def Let_def split: sum.splits)
  obtain n where n: "P \<in> fst ` set (object_list (get_page (profile_post_list s a) 10 n))"
    using profile_listed_iff [of P s a] assms(3,4) by blast
  have "profile s (request\<lparr>req_user := u, req_page := n\<rparr>) (username a) =
          Inr (Render_profile a (get_page (profile_post_list s a) 10 n))"
    using profile_found [OF assms(1,2), of "request\<lparr>req_user := u, req_page := n\<rparr>"] by simp
  with n show "\<exists>n pg. profile s (request\<lparr>req_user := u, req_page := n\<rparr>) (username a) =
                    Inr (Render_profile a pg) \<and> P \<in> fst ` set (object_list pg)"
    by blast
qed

theorem profile_requester_independent_witness:
  "distinct (map username (users sample)) \<and> bob \<in> set (users sample) \<and>
   post4 \<in> set (posts sample) \<and> author_id post4 = user_pk bob \<and> \<not> pub_date post4 \<le> 500 \<and>
   profile sample (anonymous_get\<lparr>req_user := None\<rparr>) ''bob'' =
     profile sample (anonymous_get\<lparr>req_user := Some alice\<rparr>) ''bob'' \<and>
   (\<exists>n pg. profile sample (anonymous_get\<lparr>req_user := None, req_page := n\<rparr>) (username bob) =
              Inr (Render_profile bob pg) \<and>
            post4 \<in> fst ` set (object_list pg))"
proof -
  have d: "distinct (map username (users sample))"
    by (simp add: sample_defs)
  have m: "bob \<in> set (users sample)" "post4 \<in> set (posts sample)"
    "author_id post4 = user_pk bob" "\<not> pub_date post4 \<le> 500"
    by (simp_all add: sample_defs)
  from profile_requester_independent [where request = anonymous_get and u = None
      and u' = "Some alice" and name = "''bob''", OF d m(1,2,3)]
  show ?thesis
    using d m by simp
qed

subsection \<open>Order, pages and comments\<close>

text \<open>
  C7: the listing behind every page that \<^verbatim>\<open>index\<close>, \<^verbatim>\<open>category_posts\<close> and
  \<^verbatim>\<open>profile\<close> serve is ordered by \<^verbatim>\<open>pub_date\<close>, newest first, and the page is
  the slice of ten consecutive rows of it that the page number selects (fewer on the
  last page). The comments that a successful \<^verbatim>\<open>post_detail\<close> attaches are the
  comments of the post in the order of \<^verbatim>\<open>created_at\<close>, oldest first, and a comment
  form is in the context iff the requester is authenticated.
\<close>

theorem listings_ordered_and_paginated:
  "(\<exists>xs pg. index s now request = Render_index pg \<and> xs = index_post_list s now \<and>
      sorted_wrt (\<lambda>x y. pub_date (fst y) \<le> pub_date (fst x)) xs \<and>
      object_list pg = take 10 (drop ((number pg - 1) * 10) xs) \<and>
      length (object_list pg) \<le> 10 \<and> 1 \<le> number pg \<and> number pg \<le> num_pages xs 10) \<and>
   (\<forall>r. category_posts s now request sl = Inr r \<longrightarrow>
      (\<exists>c xs pg. r = Render_category c pg \<and> xs = category_post_list s now c \<and>
         sorted_wrt (\<lambda>x y. pub_date (fst y) \<le> pub_date (fst x)) xs \<and>
         object_list pg = take 10 (drop ((number pg - 1) * 10) xs) \<and>
         length (object_list pg) \<le> 10 \<and> 1 \<le> number pg \<and> number pg \<le> num_pages xs 10)) \<and>
   (\<forall>r. profile s request name = Inr r \<longrightarrow>
      (\<exists>a xs pg. r = Render_profile a pg \<and> xs = profile_post_list s a \<and>
         sorted_wrt (\<lambda>x y. pub_date (fst y) \<le> pub_date (fst x)) xs \<and>
         object_list pg = take 10 (drop ((number pg - 1) * 10) xs) \<and>
         length (object_list pg) \<le> 10 \<and> 1 \<le> number pg \<and> number pg \<le> num_pages xs 10)) \<and>
   (\<forall>r. post_detail s now request i = Inr r \<longrightarrow>
      (\<exists>P cs f. r = Render_detail P cs f \<and>
         sorted (map created_at cs) \<and>
         set cs = {c \<in> set (comments s). comment_post_id c = post_pk P} \<and>
         length cs = length (filter (\<lambda>c. comment_post_id c = post_pk P) (comments s)) \<and>
         (f \<noteq> None \<longleftrightarrow> req_user request \<noteq> None)))"
proof (intro conjI allI impI, goal_cases)
  case 1
  have "index s now request = Render_index (get_page (index_post_list s now) 10 (req_page request))"
    by (simp add: index_def)
  then show ?case
    using sorted_index_post_list page_slice by blast
next
  case (2 r)
  then obtain c where "r = Render_category c (get_page (category_post_list s now c) 10 (req_page request))"
    by (rule category_posts_Inr)
  then show ?case
    using sorted_category_post_list page_slice by blast
next
  case (3 r)
  then obtain a where "r = Render_profile a (get_page (profile_post_list s a) 10 (req_page request))"
    by (rule profile_Inr)
  then show ?case
    using sorted_profile_post_list page_slice by blast
next
  case (4 r)
  then obtain P where r: "r = Render_detail P (sort_key created_at (post_comments s P))
                        (if req_user request \<noteq> None then Some Unbound else None)"
    by (rule post_detail_Inr)
  have "sorted (map created_at (sort_key created_at (post_comments s P)))"
    by (rule sorted_sort_key)
  moreover have "set (sort_key created_at (post_comments s P)) =
                   {c \<in> set (comments s). comment_post_id c = post_pk P}"
    by (auto simp: post_comments_def)
  moreover have "length (sort_key created_at (post_comments s P)) =
                   length (filter (\<lambda>c. comment_post_id c = post_pk P) (comments s))"
    by (simp add: post_comments_def)
  ultimately show ?case
    using r by auto
qed

theorem listings_ordered_and_paginated_witness:
  "index busy 500 (anonymous_get\<lparr>req_page := Some 2\<rparr>) =
     Render_index \<lparr>object_list = [(nth_post 2, 0), (nth_post 1, 0)], number = 2,
                   paginator_num_pages = 2\<rparr> \<and>
   category_posts busy 500 (anonymous_get\<lparr>req_page := Some 2\<rparr>) ''travel'' =
     Inr (Render_category travel
            \<lparr>object_list = [(nth_post 2, 0), (nth_post 1, 0)], number = 2,
             paginator_num_pages = 2\<rparr>) \<and>
   profile busy (anonymous_get\<lparr>req_page := Some 2\<rparr>) ''alice'' =
     Inr (Render_profile alice
            \<lparr>object_list = [(nth_post 2, 0), (nth_post 1, 0)], number = 2,
             paginator_num_pages = 2\<rparr>) \<and>
   post_detail sample 500 (request_of GET bob Map.empty) 1 =
     Inr (Render_detail post1 [comment2, comment1] (Some Unbound)) \<and>
   (\<exists>c xs pg. category_posts busy 500 (anonymous_get\<lparr>req_page := Some 2\<rparr>) ''travel'' =
        Inr (Render_category c pg) \<and> xs = category_post_list busy 500 c \<and>
      sorted_wrt (\<lambda>x y. pub_date (fst y) \<le> pub_date (fst x)) xs \<and>
      object_list pg = take 10 (drop ((number pg - 1) * 10) xs)) \<and>
   (\<exists>a xs pg. profile busy (anonymous_get\<lparr>req_page := Some 2\<rparr>) ''alice'' =
        Inr (Render_profile a pg) \<and> xs = profile_post_list busy a \<and>
      sorted_wrt (\<lambda>x y. pub_date (fst y) \<le> pub_date (fst x)) xs \<and>
      object_list pg = take 10 (drop ((number pg - 1) * 10) xs)) \<and>
   (\<exists>P cs f. post_detail sample 500 (request_of GET bob Map.empty) 1 =
        Inr (Render_detail P cs f) \<and>
      sorted (map created_at cs) \<and> (f \<noteq> None \<longleftrightarrow> req_user (request_of GET bob Map.empty) \<noteq> None))"
proof -
  note busy_thm = listings_ordered_and_paginated
    [of busy 500 "anonymous_get\<lparr>req_page := Some 2\<rparr>" "''travel''" "''alice''" 1]
  note sample_thm = listings_ordered_and_paginated
    [of sample 500 "request_of GET bob Map.empty" "''travel''" "''alice''" 1]
  have c: "\<exists>c xs pg. category_posts busy 500 (anonymous_get\<lparr>req_page := Some 2\<rparr>) ''travel'' =
        Inr (Render_category c pg) \<and> xs = category_post_list busy 500 c \<and>
      sorted_wrt (\<lambda>x y. pub_date (fst y) \<le> pub_date (fst x)) xs \<and>
      object_list pg = take 10 (drop ((number pg - 1) * 10) xs)"
    using busy_thm category_posts_busy_page2 by blast
  have p: "\<exists>a xs pg. profile busy (anonymous_get\<lparr>req_page := Some 2\<rparr>) ''alice'' =
        Inr (Render_profile a pg) \<and> xs = profile_post_list busy a \<and>
      sorted_wrt (\<lambda>x y. pub_date (fst y) \<le> pub_date (fst x)) xs \<and>
      object_list pg = take 10 (drop ((number pg - 1) * 10) xs)"
    using busy_thm profile_busy_page2 by blast
  have d: "\<exists>P cs f. post_detail sample 500 (request_of GET bob Map.empty) 1 =
        Inr (Render_detail P cs f) \<and>
      sorted (map created_at cs) \<and> (f \<noteq> None \<longleftrightarrow> req_user (request_of GET bob Map.empty) \<noteq> None)"
    using sample_thm post_detail_sample_1 by blast
  show ?thesis
    using index_busy_page2 category_posts_busy_page2 profile_busy_page2 post_detail_sample_1 c p d
    by blast
qed

subsection \<open>The author of a post\<close>

text \<open>
  C3: a valid \<^verbatim>\<open>POST\<close> to \<^verbatim>\<open>post_create\<close> by the user \<open>u\<close> stores one new post,
  whose author is \<open>u\<close>, and \<^verbatim>\<open>post_create\<close> stores nothing else; a valid
  \<^verbatim>\<open>POST\<close> to \<^verbatim>\<open>post_edit\<close> by the author \<open>u\<close> of the post leaves the post
  stored with author \<open>u\<close>. Neither handler reads an \<^verbatim>\<open>author\<close> value of the
  submitted form: the outcome is the same whatever it is. Whatever the request,
  \<^verbatim>\<open>post_edit\<close> leaves the keys and the authors of all stored posts as they were, so
  no post changes its author.
\<close>

theorem post_author_is_requester:
  "(\<forall>u cd. req_user request = Some u \<and> req_method request = POST \<and>
        PostForm_clean M s (form_data PostForm_fields (req_POST request)) = Some cd \<longrightarrow>
        (\<exists>p. post_create M request s =
               Inr (Redirect (Route_profile (username u)),
                    s\<lparr>posts := posts s @ [p], post_seq := Suc (post_seq s)\<rparr>) \<and>
             author_id p = user_pk u)) \<and>
   (\<forall>resp s'. post_create M request s = Inr (resp, s') \<longrightarrow>
        s' = s \<or>
        (\<exists>u p. req_user request = Some u \<and> posts s' = posts s @ [p] \<and>
               author_id p = user_pk u)) \<and>
   post_create M (request\<lparr>req_POST := (req_POST request)(''author'' := v)\<rparr>) s =
     post_create M request s \<and>
   (\<forall>u post cd. req_user request = Some u \<and>
        get_object_or_404 ''Post'' (posts s) (\<lambda>p. post_pk p = post_id) [post_id] = Inr post \<and>
        author_id post = user_pk u \<and> req_method request = POST \<and>
        PostForm_clean M s (form_data PostForm_fields (req_POST request)) = Some cd \<longrightarrow>
        (\<exists>s'. post_edit M post_id request s = Inr (Redirect (Route_post_detail post_id), s') \<and>
              (\<exists>p\<in>set (posts s'). post_pk p = post_id) \<and>
              (\<forall>p\<in>set (posts s'). post_pk p = post_id \<longrightarrow> author_id p = user_pk u))) \<and>
   (\<forall>resp s'. post_edit M post_id request s = Inr (resp, s') \<longrightarrow>
        map post_pk (posts s') = map post_pk (posts s) \<and>
        map author_id (posts s') = map author_id (posts s)) \<and>
   post_edit M post_id (request\<lparr>req_POST := (req_POST request)(''author'' := v)\<rparr>) s =
     post_edit M post_id request s"
proof (intro conjI allI impI, goal_cases)
  case (1 u cd)
  then show ?case
    using post_create_valid [of request u M s cd] by auto
next
  case (2 resp s')
  then show ?case
    by (rule post_create_outcome)
next
  case 3
  show ?case
    by (rule post_create_ignores_author)
next
  case (4 u post cd)
  then have g: "get_object_or_404 ''Post'' (posts s) (\<lambda>p. post_pk p = post_id) [post_id] = Inr post"
    and v: "post_edit M post_id request s =
           Inr (Redirect (Route_post_detail post_id),
                update_post s ((PostForm_save post cd)\<lparr>author_id := user_pk u\<rparr>))"
    and a: "author_id post = user_pk u"
    using post_edit_valid [of request u s post_id post M cd] by auto
  have pk: "post_pk post = post_id"
    using get_object_or_404_Inr [OF g] by simp
  let ?p = "(PostForm_save post cd)\<lparr>author_id := user_pk u\<rparr>"
  have p: "post_pk ?p = post_id" "author_id ?p = author_id post"
    using pk a by simp_all
  have "\<exists>p\<in>set (posts (update_post s ?p)). post_pk p = post_id"
    using update_post_keeps(3) [OF g p] .
  moreover have "\<forall>p\<in>set (posts (update_post s ?p)). post_pk p = post_id \<longrightarrow>
      author_id p = user_pk u"
    using update_post_keeps(4) [OF g p] a by simp
  ultimately show ?case
    using v by blast
next
  case (5 resp s')
  then show ?case
    using post_edit_outcome [of M post_id request s resp s'] by simp
next
  case (6 resp s')
  then show ?case
    using post_edit_outcome [of M post_id request s resp s'] by simp
next
  case 7
  show ?case
    by (rule post_edit_ignores_author)
qed

theorem post_author_is_requester_witness:
  "req_user (request_of POST bob
      [''title'' \<mapsto> ''New'', ''text'' \<mapsto> ''Body'', ''author'' \<mapsto> ''1'']) = Some bob \<and>
   (\<exists>p. post_create sample_model
          (request_of POST bob [''title'' \<mapsto> ''New'', ''text'' \<mapsto> ''Body'', ''author'' \<mapsto> ''1''])
          sample =
        Inr (Redirect (Route_profile (username bob)),
             sample\<lparr>posts := posts sample @ [p], post_seq := Suc (post_seq sample)\<rparr>) \<and>
      author_id p = user_pk bob) \<and>
   get_object_or_404 ''Post'' (posts sample) (\<lambda>p. post_pk p = 1) [1] = Inr post1 \<and>
   author_id post1 = user_pk alice \<and>
   (\<exists>s'. post_edit sample_model 1
          (request_of POST alice [''title'' \<mapsto> ''New'', ''text'' \<mapsto> ''Body'', ''author'' \<mapsto> ''2''])
          sample =
        Inr (Redirect (Route_post_detail 1), s') \<and>
      (\<exists>p\<in>set (posts s'). post_pk p = 1) \<and>
      (\<forall>p\<in>set (posts s'). post_pk p = 1 \<longrightarrow> author_id p = user_pk alice))"
proof -
  let ?b = "request_of POST bob [''title'' \<mapsto> ''New'', ''text'' \<mapsto> ''Body'', ''author'' \<mapsto> ''1'']"
  let ?a = "request_of POST alice [''title'' \<mapsto> ''New'', ''text'' \<mapsto> ''Body'', ''author'' \<mapsto> ''2'']"
  let ?cd = "\<lparr>cleaned_title = ''New'', cleaned_text = ''Body'', cleaned_pub_date = 700,
         cleaned_location = None, cleaned_category = None, cleaned_image = []\<rparr>"
  have b: "req_user ?b = Some bob" "req_method ?b = POST"
    "PostForm_clean sample_model sample (form_data PostForm_fields (req_POST ?b)) = Some ?cd"
    using sample_clean [of sample "''1''"] by (simp_all add: request_of_def)
  have a: "req_user ?a = Some alice" "req_method ?a = POST"
    "PostForm_clean sample_model sample (form_data PostForm_fields (req_POST ?a)) = Some ?cd"
    "author_id post1 = user_pk alice"
    using sample_clean [of sample "''2''"] by (simp_all add: request_of_def post1_def alice_def)
  have 1: "\<exists>p. post_create sample_model ?b sample =
        Inr (Redirect (Route_profile (username bob)),
             sample\<lparr>posts := posts sample @ [p], post_seq := Suc (post_seq sample)\<rparr>) \<and>
      author_id p = user_pk bob"
    using post_author_is_requester [of ?b sample_model sample "Some ''x''" 1] b by blast
  have 2: "\<exists>s'. post_edit sample_model 1 ?a sample = Inr (Redirect (Route_post_detail 1), s') \<and>
      (\<exists>p\<in>set (posts s'). post_pk p = 1) \<and>
      (\<forall>p\<in>set (posts s'). post_pk p = 1 \<longrightarrow> author_id p = user_pk alice)"
    using post_author_is_requester [of ?a sample_model sample "Some ''x''" 1] a get_post1 by blast
  show ?thesis
    using b(1) 1 get_post1 a(4) 2 by blast
qed

subsection \<open>Requests of a non-owner\<close>

text \<open>
  C4, as stated, fails for the delete handlers: \<^verbatim>\<open>require_http_methods\<close> answers a
  request whose method is neither \<^verbatim>\<open>GET\<close> nor \<^verbatim>\<open>POST\<close> with 405 before the owner
  is looked at. Here bob sends \<^verbatim>\<open>HEAD\<close> to the delete page of alice's post.
\<close>

theorem non_owner_delete_counterexample:
  "req_user (request_of HEAD bob Map.empty) = Some bob \<and> post1 \<in> set (posts sample) \<and>
   author_id post1 \<noteq> user_pk bob \<and>
   post_delete (post_pk post1) (request_of HEAD bob Map.empty) sample =
     Inr (HttpResponseNotAllowed [GET, POST], sample) \<and>
   post_delete (post_pk post1) (request_of HEAD bob Map.empty) sample \<noteq>
     Inr (Redirect (Route_post_detail (post_pk post1)), sample)"
  by (simp add: post_delete_def login_required_def require_http_methods_def sample_defs)

text \<open>
  C4, amended: primary keys being unique, for an authenticated requester who is not the
  author of the stored post or comment, \<^verbatim>\<open>post_edit\<close> and \<^verbatim>\<open>edit_comment\<close>
  (whatever the method) and \<^verbatim>\<open>post_delete\<close> and \<^verbatim>\<open>delete_comment\<close> (for
  \<^verbatim>\<open>GET\<close> and \<^verbatim>\<open>POST\<close>) redirect to the post-detail view of the post and leave
  the whole state as it was; the delete handlers answer any other method with 405, the
  state as it was too.
\<close>

theorem non_owner_redirected:
  assumes "req_user request = Some u"
    and "distinct (map post_pk (posts s))" and "distinct (map comment_pk (comments s))"
  shows "(\<forall>P\<in>set (posts s). author_id P \<noteq> user_pk u \<longrightarrow>
            post_edit M (post_pk P) request s =
              Inr (Redirect (Route_post_detail (post_pk P)), s) \<and>
            post_delete (post_pk P) request s =
              (if req_method request = GET \<or> req_method request = POST
               then Inr (Redirect (Route_post_detail (post_pk P)), s)
               else Inr (HttpResponseNotAllowed [GET, POST], s))) \<and>
         (\<forall>C\<in>set (comments s). comment_author_id C \<noteq> user_pk u \<longrightarrow>
            edit_comment (comment_post_id C) (comment_pk C) request s =
              Inr (Redirect (Route_post_detail (comment_post_id C)), s) \<and>
            delete_comment (comment_post_id C) (comment_pk C) request s =
              (if req_method request = GET \<or> req_method request = POST
               then Inr (Redirect (Route_post_detail (comment_post_id C)), s)
               else Inr (HttpResponseNotAllowed [GET, POST], s)))"
proof (intro conjI ballI impI, goal_cases)
  case (1 P)
  then show ?case
    by (rule post_edit_non_owner [OF assms(1,2)])
next
  case (2 P)
  then show ?case
    by (rule post_delete_non_owner [OF assms(1,2)])
next
  case (3 C)
  then show ?case
    by (rule edit_comment_non_owner [OF assms(1,3)])
next
  case (4 C)
  then show ?case
    by (rule delete_comment_non_owner [OF assms(1,3)])
qed

theorem non_owner_redirected_witness:
  "req_user (request_of POST bob [''text'' \<mapsto> ''mine'']) = Some bob \<and>
   distinct (map post_pk (posts sample)) \<and> distinct (map comment_pk (comments sample)) \<and>
   post1 \<in> set (posts sample) \<and> author_id post1 \<noteq> user_pk bob \<and>
   comment2 \<in> set (comments sample) \<and> comment_author_id comment2 \<noteq> user_pk bob \<and>
   post_edit sample_model 1 (request_of POST bob [''text'' \<mapsto> ''mine'']) sample =
     Inr (Redirect (Route_post_detail 1), sample) \<and>
   post_delete 1 (request_of POST bob [''text'' \<mapsto> ''mine'']) sample =
     Inr (Redirect (Route_post_detail 1), sample) \<and>
   edit_comment 1 2 (request_of POST bob [''text'' \<mapsto> ''mine'']) sample =
     Inr (Redirect (Route_post_detail 1), sample) \<and>
   delete_comment 1 2 (request_of POST bob [''text'' \<mapsto> ''mine'']) sample =
     Inr (Redirect (Route_post_detail 1), sample)"
proof -
  let ?r = "request_of POST bob [''text'' \<mapsto> ''mine'']"
  have h: "req_user ?r = Some bob" "distinct (map post_pk (posts sample))"
    "distinct (map comment_pk (comments sample))"
    by (simp_all add: sample_defs)
  have m: "post1 \<in> set (posts sample)" "author_id post1 \<noteq> user_pk bob"
    "comment2 \<in> set (comments sample)" "comment_author_id comment2 \<noteq> user_pk bob"
    "req_method ?r = POST" "post_pk post1 = 1" "comment_pk comment2 = 2"
    "comment_post_id comment2 = 1"
    by (simp_all add: sample_defs)
  note t = non_owner_redirected [OF h, of sample_model]
  have p: "post_edit sample_model (post_pk post1) ?r sample =
              Inr (Redirect (Route_post_detail (post_pk post1)), sample) \<and>
           post_delete (post_pk post1) ?r sample =
              Inr (Redirect (Route_post_detail (post_pk post1)), sample)"
    using t m(1,2,5) by auto
  have c: "edit_comment (comment_post_id comment2) (comment_pk comment2) ?r sample =
              Inr (Redirect (Route_post_detail (comment_post_id comment2)), sample) \<and>
           delete_comment (comment_post_id comment2) (comment_pk comment2) ?r sample =
              Inr (Redirect (Route_post_detail (comment_post_id comment2)), sample)"
    using t m(3,4,5) by auto
  show ?thesis
    using h m p c by simp
qed

subsection \<open>A comment with empty text\<close>

text \<open>
  C8, as stated, fails in its last part: \<^verbatim>\<open>add_comment\<close> renders nothing. For an
  empty text it answers with the redirect it also gives after a valid comment, not with
  the page that \<^verbatim>\<open>post_detail\<close> renders. Here bob posts an empty comment on post 1.
\<close>

theorem empty_comment_counterexample:
  "req_user (request_of POST bob [''text'' \<mapsto> '''']) = Some bob \<and>
   post1 \<in> set (posts sample) \<and>
   post_detail sample 500 (request_of POST bob [''text'' \<mapsto> '''']) (post_pk post1) =
     Inr (Render_detail post1 [comment2, comment1] (Some Unbound)) \<and>
   add_comment 500 (post_pk post1) (request_of POST bob [''text'' \<mapsto> '''']) sample =
     Inr (Redirect (Route_post_detail (post_pk post1)), sample) \<and>
   add_comment 500 (post_pk post1) (request_of POST bob [''text'' \<mapsto> '''']) sample \<noteq>
     Inr (Render_detail post1 [comment2, comment1] (Some Unbound), sample)"
  by (simp add: add_comment_def post_detail_def login_required_def get_object_or_404_def
      CommentForm_clean_def form_data_def CommentForm_fields_def post_category_def
      post_comments_def sample_defs)

text \<open>
  C8, amended: for an authenticated request with an empty comment text to a stored post
  (primary keys being unique), the form does not validate, the state is left as it was
  (no comment row is created), and \<^verbatim>\<open>add_comment\<close> answers with a redirect to the
  post-detail view of that post, the same response that a non-empty text gets.
\<close>

theorem empty_comment_redirects:
  assumes "req_user request = Some u" and "distinct (map post_pk (posts s))"
    and "P \<in> set (posts s)" and "req_POST request ''text'' = Some []"
  shows "CommentForm_clean (form_data CommentForm_fields (req_POST request)) = None \<and>
         add_comment now (post_pk P) request s =
           Inr (Redirect (Route_post_detail (post_pk P)), s) \<and>
         (\<forall>t. t \<noteq> [] \<longrightarrow>
            (\<exists>s'. add_comment now (post_pk P)
                     (request\<lparr>req_POST := (req_POST request)(''text'' \<mapsto> t)\<rparr>) s =
                   Inr (Redirect (Route_post_detail (post_pk P)), s')))"
proof (intro conjI allI impI)
  show c: "CommentForm_clean (form_data CommentForm_fields (req_POST request)) = None"
    using assms(4) by (rule CommentForm_clean_empty)
  show "add_comment now (post_pk P) request s = Inr (Redirect (Route_post_detail (post_pk P)), s)"
    using add_comment_found [OF assms(1,2,3), of now] c by simp
  fix t :: string assume "t \<noteq> []"
  then have "CommentForm_clean (form_data CommentForm_fields ((req_POST request)(''text'' \<mapsto> t)))
               = Some t"
    by (rule CommentForm_clean_text)
  moreover have "req_user (request\<lparr>req_POST := (req_POST request)(''text'' \<mapsto> t)\<rparr>) = Some u"
    using assms(1) by simp
  ultimately show "\<exists>s'. add_comment now (post_pk P)
                     (request\<lparr>req_POST := (req_POST request)(''text'' \<mapsto> t)\<rparr>) s =
                   Inr (Redirect (Route_post_detail (post_pk P)), s')"
    using add_comment_found [OF _ assms(2,3),
        of "request\<lparr>req_POST := (req_POST request)(''text'' \<mapsto> t)\<rparr>" u now]
    by simp
qed

theorem empty_comment_redirects_witness:
  "req_user (request_of POST bob [''text'' \<mapsto> '''']) = Some bob \<and>
   distinct (map post_pk (posts sample)) \<and> post1 \<in> set (posts sample) \<and>
   req_POST (request_of POST bob [''text'' \<mapsto> '''']) ''text'' = Some [] \<and>
   add_comment 500 1 (request_of POST bob [''text'' \<mapsto> '''']) sample =
     Inr (Redirect (Route_post_detail 1), sample)"
proof -
  let ?r = "request_of POST bob [''text'' \<mapsto> '''']"
  have h: "req_user ?r = Some bob" "distinct (map post_pk (posts sample))"
    "post1 \<in> set (posts sample)" "req_POST ?r ''text'' = Some []"
    by (simp_all add: sample_defs)
  have pk: "post_pk post1 = 1"
    by (simp add: post1_def)
  from empty_comment_redirects [OF h, of 500]
  show ?thesis
    using h pk by simp
qed

end
